theory Spec2Isabelle
  imports Main "HOL-Library.Word"
begin

section \<open>Data model of the mirror command\<close>

text \<open>
  Go's \<open>int64\<close> is a 64-bit word: \<open>+\<close> wraps around, \<open>sint\<close> reads the signed value.
  \<open>totalObjects\<close> is a Go \<open>int\<close>, taken at its 64-bit width.
\<close>

type_synonym int64 = "64 word"

text \<open>
  Modelled from the spec: the error types of package \<open>client\<close> are not among the
  sources. The dynamic type of a Go error, as far as the type switch of the status
  monitor tells errors apart: broken symlink, too many levels of symlink, path not
  found, insufficient permission, and any other error type.
\<close>

datatype go_error =
    BrokenSymlink
  | TooManyLevelsSymlink
  | PathNotFound
  | PathInsufficientPermission
  | OtherError string

text \<open>
  A \<open>*probe.Error\<close> of the library \<open>probe\<close>: the wrapped Go error and the trace points
  added so far, each with the arguments given to \<open>Trace\<close>.
\<close>

record probe_error =
  Cause :: go_error
  TracePoints :: "string list list"

definition NewError :: "go_error \<Rightarrow> probe_error" where
  "NewError e = \<lparr>Cause = e, TracePoints = []\<rparr>"

definition Trace :: "probe_error \<Rightarrow> string list \<Rightarrow> probe_error" where
  "Trace e args = e\<lparr>TracePoints := TracePoints e @ [args]\<rparr>"

definition ToGoError :: "probe_error \<Rightarrow> go_error" where
  "ToGoError e = Cause e"

text \<open>
  Modelled from the spec: the declarations of \<open>client.Content\<close>, \<open>mirrorURLs\<close> and the
  session header are not among the sources. A transfer unit has a source content (URL and
  size), one target content for each destination and an optional error; the header
  has the fields below.
\<close>

record content =
  URL :: string
  Size :: int64

record mirrorURLs =
  SourceContent :: content
  TargetContents :: "content list"
  Error :: "probe_error option"

record sessionHeader =
  CommandType :: string
  CommandArgs :: "string list"
  CommandBoolFlags :: "(string \<times> bool) list"
  RootPath :: string
  TotalBytes :: int64
  TotalObjects :: int64
  LastCopied :: string

text \<open>The global output flags read by the mirror command.\<close>

record flags =
  globalQuietFlag :: bool
  globalJSONFlag :: bool
  globalDebugFlag :: bool

section \<open>Progress bar, readers and observable events\<close>

text \<open>
  \<open>progressReader\<close> is a \<open>*barSend\<close>: \<open>None\<close> is the nil pointer, \<open>Some (BarSend n)\<close>
  the bar made by \<open>newProgressBar n\<close>. A reader is the stream opened on a source URL,
  possibly wrapped by the accounter or by the progress bar; \<open>NilReader\<close> is the nil
  \<open>io.ReadCloser\<close>.
\<close>

datatype barSend = BarSend int64

datatype reader =
    SourceReader string
  | AccountingProxy reader
  | ProgressProxy reader
  | NilReader

datatype bar_method =
    SetCaption string
  | ErrorGet int64
  | ErrorPut int64
  | NewProxyReader
  | Progress int64
  | Finish

text \<open>
  What the command does that can be seen from outside, in the order it happens. A
  \<open>BarCall\<close> records a method of \<open>progressReader\<close> invoked on the given receiver,
  \<open>IsCopied\<close> a call of \<open>isCopied\<close> on the source URL of the given unit with its result.
  \<open>AcquireSlot\<close> is a value sent into \<open>mirrorQueue\<close>, \<open>ReleaseSlot\<close> a value received
  from it; \<open>Crash\<close> is the process brought down by a panic no one recovers.
\<close>

datatype event =
    BarCall "barSend option" bar_method
  | Eraseline
  | ErrorIf probe_error string
  | FatalIf probe_error string
  | ScanBar string
  | PrintStat
  | PrintMsg string "string list"
  | GetSourceCall string
  | PutTargetsCall "string list" int64 reader
  | CloseReader reader
  | Send mirrorURLs
  | AcquireSlot
  | ReleaseSlot
  | WgDone
  | Crash
  | IsCopied mirrorURLs bool

section \<open>Session store\<close>

text \<open>
  The session: the header in memory, the header as last written to disk, the lines of
  the data file and whether the session has been deleted. \<open>Saves\<close> counts the times
  the header has been written.
\<close>

record sessionV5 =
  Header :: sessionHeader
  Persisted :: "sessionHeader option"
  DataFile :: "string list"
  Deleted :: bool
  Saves :: nat

text \<open>
  Modelled from the spec: the methods \<open>Save\<close>, \<open>Delete\<close>, \<open>HasData\<close> and
  \<open>CloseAndDie\<close> of the session store are not among the sources. \<open>save()\<close> durably
  persists the header; \<open>delete()\<close> removes header and log; \<open>hasData()\<close> tells whether
  the log is already populated from a prior run; \<open>closeAndDie()\<close> persists the header,
  then terminates the process with a non-zero status, leaving the session resumable.
\<close>

definition Save :: "sessionV5 \<Rightarrow> sessionV5" where
  "Save s = s\<lparr>Persisted := Some (Header s), Saves := Suc (Saves s)\<rparr>"

definition Delete :: "sessionV5 \<Rightarrow> sessionV5" where
  "Delete s = s\<lparr>Persisted := None, DataFile := [], Deleted := True\<rparr>"

definition HasData :: "sessionV5 \<Rightarrow> bool" where
  "HasData s = (DataFile s \<noteq> [])"

text \<open>A terminated process: its exit status and the session it leaves behind.\<close>

datatype exit = Exit int sessionV5

definition CloseAndDie :: "sessionV5 \<Rightarrow> exit" where
  "CloseAndDie s = Exit 1 (s\<lparr>Persisted := Some (Header s), Saves := Suc (Saves s)\<rparr>)"

text \<open>
  Modelled from the spec: \<open>errorIf\<close> and \<open>fatalIf\<close> are not among the sources. Both
  are called here with an error at hand: \<open>errorIf\<close> reports it to the user and goes on,
  \<open>fatalIf\<close> reports it and terminates the process with a non-zero status.
\<close>

definition errorIf :: "probe_error \<Rightarrow> string \<Rightarrow> event list" where
  errorIf_simp [simp]: "errorIf err msg = [ErrorIf err msg]"

definition fatalIf :: "probe_error \<Rightarrow> string \<Rightarrow> sessionV5 \<Rightarrow> event list \<times> exit" where
  fatalIf_simp [simp]: "fatalIf err msg session = ([FatalIf err msg], Exit 1 session)"

section \<open>doMirror and doMirrorFake\<close>

text \<open>
  \<open>getSource\<close> and \<open>putTargets\<close> belong to the storage clients and are parameters.
  \<open>getSource url\<close> returns the reader, the length and the error, as the Go function
  does. The events of one call of \<open>doMirror\<close> end with the deferred calls, last
  deferred first: closing \<open>newReader\<close> (once it has been deferred), receiving from
  \<open>mirrorQueueCh\<close>, and \<open>wg.Done\<close>. Deferring \<open>newReader.Close\<close> on a nil
  \<open>newReader\<close> panics: the two calls deferred before it run, and the process crashes.
\<close>

type_synonym get_source = "string \<Rightarrow> reader \<times> int64 \<times> probe_error option"
type_synonym put_targets = "string list \<Rightarrow> int64 \<Rightarrow> reader \<Rightarrow> probe_error option"

definition doMirror ::
  "flags \<Rightarrow> get_source \<Rightarrow> put_targets \<Rightarrow> mirrorURLs \<Rightarrow> barSend option \<Rightarrow> event list" where
  "doMirror f getSource putTargets sURLs progressReader =
     (case Error sURLs of
        Some e0 \<Rightarrow> [Send (sURLs\<lparr>Error := Some (Trace e0 [])\<rparr>), ReleaseSlot, WgDone]
      | None \<Rightarrow>
          (let src = URL (SourceContent sURLs);
               caption = (if \<not> globalQuietFlag f \<and> \<not> globalJSONFlag f
                          then [BarCall progressReader (SetCaption (src @ '': ''))] else []);
               (reader, length, err) = getSource src
           in case err of
                Some e1 \<Rightarrow>
                  caption @ [GetSourceCall src] @
                  (if \<not> globalQuietFlag f \<and> \<not> globalJSONFlag f
                   then [BarCall progressReader (ErrorGet length)] else []) @
                  [Send (sURLs\<lparr>Error := Some (Trace e1 [src])\<rparr>), ReleaseSlot, WgDone]
              | None \<Rightarrow>
                  (let targetURLs = map URL (TargetContents sURLs);
                       r0 = NilReader;
                       r1 = (if globalJSONFlag f then reader else r0);
                       r2 = (if globalQuietFlag f then AccountingProxy reader else r1);
                       newReader = (if globalQuietFlag f \<or> globalJSONFlag f then r2
                                    else ProgressProxy reader);
                       wrap = (if globalQuietFlag f \<or> globalJSONFlag f
                               then [PrintMsg src targetURLs]
                               else [BarCall progressReader NewProxyReader]);
                       opened = caption @ [GetSourceCall src] @ wrap;
                       before = opened @ [PutTargetsCall targetURLs length newReader]
                   in if newReader = NilReader
                      then opened @ [ReleaseSlot, WgDone, Crash]
                      else case putTargets targetURLs length newReader of
                        Some e2 \<Rightarrow>
                          before @
                          (if \<not> globalQuietFlag f \<and> \<not> globalJSONFlag f
                           then [BarCall progressReader (ErrorPut length)] else []) @
                          [Send (sURLs\<lparr>Error := Some (Trace e2 targetURLs)\<rparr>),
                           CloseReader newReader, ReleaseSlot, WgDone]
                      | None \<Rightarrow>
                          before @
                          [Send (sURLs\<lparr>Error := None\<rparr>),
                           CloseReader newReader, ReleaseSlot, WgDone])))"

definition doMirrorFake :: "flags \<Rightarrow> mirrorURLs \<Rightarrow> barSend option \<Rightarrow> event list" where
  "doMirrorFake f sURLs progressReader =
     (if \<not> globalDebugFlag f \<and> \<not> globalJSONFlag f
      then [BarCall progressReader (Progress (Size (SourceContent sURLs)))]
      else [])"

text \<open>The progress bar as doMirrorSession sets it up: left nil unless interactive.\<close>

definition newProgressReader :: "flags \<Rightarrow> int64 \<Rightarrow> barSend option" where
  "newProgressReader f totalBytes =
     (if \<not> globalQuietFlag f \<and> \<not> globalJSONFlag f then Some (BarSend totalBytes) else None)"

fun is_PutTargets :: "event \<Rightarrow> bool" where
  "is_PutTargets (PutTargetsCall ts n r) = True"
| "is_PutTargets e = False"

fun sent :: "event list \<Rightarrow> mirrorURLs list" where
  "sent [] = []"
| "sent (Send m # es) = m # sent es"
| "sent (e # es) = sent es"

fun nil_call :: "event \<Rightarrow> bool" where
  "nil_call (BarCall None m) = True"
| "nil_call e = False"

section \<open>The status monitor of doMirrorSession\<close>

text \<open>
  One turn of the \<open>select\<close> of the monitoring goroutine: a status received from
  \<open>statusCh\<close>, \<open>statusCh\<close> found closed, or an interrupt received from \<open>trapCh\<close>.
\<close>

datatype monitor_input = Status mirrorURLs | StatusClosed | Trap

text \<open>The loop goes on, the goroutine returns, or the process has terminated.\<close>

datatype monitor_result = Continue sessionV5 | Return sessionV5 | Died exit

text \<open>
  The message of the monitor for a failed unit; the source puts the URL between the
  quotation marks U+2018 and U+2019, here as their UTF-8 bytes.
\<close>

definition failedToMirror :: "mirrorURLs \<Rightarrow> string" where
  "failedToMirror sURLs =
     ''Failed to mirror '' @ [CHR 0xE2, CHR 0x80, CHR 0x98] @ URL (SourceContent sURLs) @
     [CHR 0xE2, CHR 0x80, CHR 0x99] @ ''.''"

fun monitor ::
  "flags \<Rightarrow> barSend option \<Rightarrow> sessionV5 \<Rightarrow> monitor_input \<Rightarrow> event list \<times> monitor_result" where
  "monitor f progressReader s StatusClosed =
     (if \<not> globalQuietFlag f \<and> \<not> globalJSONFlag f
      then ([BarCall progressReader Finish], Return s)
      else ([PrintStat], Return s))"
| "monitor f progressReader s (Status sURLs) =
     (case Error sURLs of
        None \<Rightarrow>
          ([], Continue (Save (s\<lparr>Header := (Header s)\<lparr>LastCopied := URL (SourceContent sURLs)\<rparr>\<rparr>)))
      | Some e \<Rightarrow>
          (let out = (if \<not> globalQuietFlag f \<and> \<not> globalJSONFlag f then [Eraseline] else []) @
                     errorIf (Trace e []) (failedToMirror sURLs)
           in case ToGoError e of
                BrokenSymlink \<Rightarrow> (out, Continue s)
              | TooManyLevelsSymlink \<Rightarrow> (out, Continue s)
              | PathNotFound \<Rightarrow> (out, Continue s)
              | PathInsufficientPermission \<Rightarrow> (out, Continue s)
              | OtherError x \<Rightarrow> (out, Died (CloseAndDie s))))"
| "monitor f progressReader s Trap =
     ((if \<not> globalQuietFlag f \<and> \<not> globalJSONFlag f then [Eraseline] else []),
      Died (CloseAndDie s))"

fun result_session :: "monitor_result \<Rightarrow> sessionV5" where
  "result_session (Continue s) = s"
| "result_session (Return s) = s"
| "result_session (Died (Exit n s)) = s"

section \<open>doPrepareMirrorURLs\<close>

text \<open>
  What the \<open>select\<close> of the preparation loop receives, in the order it receives it: a
  value from \<open>URLsCh\<close>, as sent by \<open>prepareMirrorURLs\<close>, or an interrupt from \<open>trapCh\<close>.
  The end of the list is \<open>URLsCh\<close> found closed.
\<close>

datatype prepare_input = FromURLsCh mirrorURLs | FromTrapCh

text \<open>
  A call returns, terminates the process or panics; \<open>Unfinished\<close> is a call that has
  not come to an end within the turns it was given.
\<close>

datatype 'a outcome = Returns 'a | Exits exit | Panics | Unfinished

text \<open>
  \<open>json.Marshal\<close> and the method \<open>isEmpty\<close> of \<open>mirrorURLs\<close> are parameters. The
  writer of \<open>NewDataWriter\<close> appends to the data file; the source does not look at the
  result of \<open>Fprintln\<close>, and the line is taken as written.
\<close>

type_synonym marshal = "mirrorURLs \<Rightarrow> go_error + string"

fun emit :: "event list \<Rightarrow> event list \<times> 'a \<Rightarrow> event list \<times> 'a" where
  "emit out (evs, r) = (out @ evs, r)"

fun prepareLoop ::
  "flags \<Rightarrow> (mirrorURLs \<Rightarrow> bool) \<Rightarrow> marshal \<Rightarrow> prepare_input list \<Rightarrow>
   sessionV5 \<Rightarrow> int64 \<Rightarrow> int64 \<Rightarrow> event list \<times> (sessionV5 \<times> int64 \<times> int64) outcome" where
  "prepareLoop f isEmpty marshal [] session totalBytes totalObjects =
     ([], Returns (session, totalBytes, totalObjects))"
| "prepareLoop f isEmpty marshal (FromTrapCh # rest) session totalBytes totalObjects =
     ((if \<not> globalQuietFlag f \<and> \<not> globalJSONFlag f then [Eraseline] else []),
      Exits (Exit 0 (Delete session)))"
| "prepareLoop f isEmpty marshal (FromURLsCh sURLs # rest) session totalBytes totalObjects =
     (case Error sURLs of
        Some e \<Rightarrow>
          emit ((if \<not> globalQuietFlag f \<and> \<not> globalJSONFlag f then [Eraseline] else []) @
                errorIf (Trace e []) ''Unable to prepare URLs for mirroring.'')
            (prepareLoop f isEmpty marshal rest session totalBytes totalObjects)
      | None \<Rightarrow>
          if isEmpty sURLs
          then prepareLoop f isEmpty marshal rest session totalBytes totalObjects
          else (case marshal sURLs of
                  Inl err \<Rightarrow>
                    (case fatalIf (NewError err) ''Unable to marshal URLs into JSON.''
                            (Delete session) of
                       (out, x) \<Rightarrow> (out, Exits x))
                | Inr jsonData \<Rightarrow>
                    emit (if \<not> globalQuietFlag f \<and> \<not> globalJSONFlag f
                          then [ScanBar (URL (SourceContent sURLs))] else [])
                      (prepareLoop f isEmpty marshal rest
                         (session\<lparr>DataFile := DataFile session @ [jsonData]\<rparr>)
                         (totalBytes + Size (SourceContent sURLs))
                         (totalObjects + 1))))"

text \<open>
  \<open>CommandArgs[0]\<close> and \<open>CommandArgs[1:]\<close> panic on an empty slice. The source URL, the
  target URLs and the force flag only go to \<open>prepareMirrorURLs\<close>, whose output is in
  the arrivals.
\<close>

definition doPrepareMirrorURLs ::
  "flags \<Rightarrow> (mirrorURLs \<Rightarrow> bool) \<Rightarrow> marshal \<Rightarrow> prepare_input list \<Rightarrow> sessionV5 \<Rightarrow>
   event list \<times> sessionV5 outcome" where
  "doPrepareMirrorURLs f isEmpty marshal arrivals session =
     (case CommandArgs (Header session) of
        [] \<Rightarrow> ([], Panics)
      | sourceURL # targetURLs \<Rightarrow>
          (case prepareLoop f isEmpty marshal arrivals session 0 0 of
             (evs, Returns (s, totalBytes, totalObjects)) \<Rightarrow>
               (evs, Returns (Save (s\<lparr>Header := (Header s)
                                 \<lparr>TotalBytes := totalBytes, TotalObjects := totalObjects\<rparr>\<rparr>)))
           | (evs, Exits x) \<Rightarrow> (evs, Exits x)
           | (evs, Panics) \<Rightarrow> (evs, Panics)
           | (evs, Unfinished) \<Rightarrow> (evs, Unfinished)))"

text \<open>The first step of doMirrorSession: prepare unless the session has data.\<close>

definition prepareUnlessHasData ::
  "flags \<Rightarrow> (mirrorURLs \<Rightarrow> bool) \<Rightarrow> marshal \<Rightarrow> prepare_input list \<Rightarrow> sessionV5 \<Rightarrow>
   event list \<times> sessionV5 outcome" where
  "prepareUnlessHasData f isEmpty marshal arrivals session =
     (if \<not> HasData session then doPrepareMirrorURLs f isEmpty marshal arrivals session
      else ([], Returns session))"

text \<open>The units that the preparation loop writes to the data file.\<close>

definition written :: "(mirrorURLs \<Rightarrow> bool) \<Rightarrow> mirrorURLs list \<Rightarrow> mirrorURLs list" where
  "written isEmpty us = filter (\<lambda>u. Error u = None \<and> \<not> isEmpty u) us"

section \<open>Execution: scanner, transfer tasks and monitor\<close>

text \<open>
  Modelled from the spec: \<open>isCopiedFactory\<close> is not among the sources. The predicate
  it returns goes along the log in its order and holds for a unit at or before the
  position of \<open>LastCopied\<close>; with an empty \<open>LastCopied\<close> it holds for no unit. Its
  state is \<open>LastCopied\<close> and whether that position is still ahead.
\<close>

definition isCopiedFactory :: "string \<Rightarrow> string \<times> bool" where
  "isCopiedFactory lastCopied = (lastCopied, True)"

fun isCopied :: "string \<times> bool \<Rightarrow> string \<Rightarrow> bool \<times> (string \<times> bool)" where
  "isCopied (lastCopied, ahead) sourceURL =
     (if lastCopied = [] then (False, (lastCopied, ahead))
      else if ahead then (True, (lastCopied, sourceURL \<noteq> lastCopied))
      else (False, (lastCopied, ahead)))"

text \<open>
  What doMirrorSession takes from outside: the flags, the number of CPUs, the storage
  clients, \<open>json.Unmarshal\<close> and the predicate of \<open>isCopiedFactory\<close> with its state
  \<open>'c\<close>. \<open>Unmarshal\<close> returns its error together with the unit as far as it has been
  filled in.
\<close>

record 'c world =
  Flags :: flags
  NumCPU :: int
  GetSource :: get_source
  PutTargets :: put_targets
  Unmarshal :: "string \<Rightarrow> go_error option \<times> mirrorURLs"
  IsCopiedFactory :: "string \<Rightarrow> 'c"
  IsCopiedFn :: "'c \<Rightarrow> string \<Rightarrow> bool \<times> 'c"

text \<open>
  The capacity of \<open>mirrorQueue\<close>, \<open>int(math.Max(float64(runtime.NumCPU())-1, 1))\<close>: the
  conversions are exact on every CPU count below \<open>2 ^ 53\<close>.
\<close>

definition mirrorQueueCap :: "int \<Rightarrow> nat" where
  "mirrorQueueCap numCPU = nat (max (numCPU - 1) 1)"

text \<open>
  The state of the execution: the session, owned by the monitor; the lines the scanner
  has not read yet; the state of \<open>isCopied\<close>; the number of values held in
  \<open>mirrorQueue\<close>; the units of the \<open>doMirror\<close> goroutines that have been started and
  have not returned; the events so far.
\<close>

record 'c execution =
  Session :: sessionV5
  Unread :: "string list"
  Copied :: 'c
  mirrorQueue :: nat
  Tasks :: "mirrorURLs list"
  Trail :: "event list"

text \<open>
  The scheduler gives the turn to the scanner loop, lets the \<open>doMirror\<close> goroutine at
  a position of \<open>Tasks\<close> run to its return, or delivers an interrupt to the monitor.
  A turn goes through, waits (the goroutine is blocked and the state stays), or ends
  the process, with the events up to there.
\<close>

datatype turn = ScanNext | TaskReturns nat | Interrupt

datatype 'c progress = Goes "'c execution" | Waits | Ends "event list" exit

text \<open>
  The events of a returning \<open>doMirror\<close>, in their order: a status sent on \<open>statusCh\<close>
  is taken by the monitor, the deferred receive takes one value out of
  \<open>mirrorQueue\<close> and blocks on an empty channel, a panic that has run the deferred
  calls ends the process with the status 2 of the Go runtime.
\<close>

fun deliver :: "flags \<Rightarrow> barSend option \<Rightarrow> event list \<Rightarrow> 'c execution \<Rightarrow> 'c progress" where
  "deliver f pr [] st = Goes st"
| "deliver f pr (Send m # es) st =
     (case monitor f pr (Session st) (Status m) of
        (out, Died x) \<Rightarrow> Ends (Trail st @ Send m # out) x
      | (out, r) \<Rightarrow>
          deliver f pr es (st\<lparr>Session := result_session r, Trail := Trail st @ Send m # out\<rparr>))"
| "deliver f pr (ReleaseSlot # es) st =
     (if mirrorQueue st = 0 then Waits
      else deliver f pr es
             (st\<lparr>mirrorQueue := mirrorQueue st - 1, Trail := Trail st @ [ReleaseSlot]\<rparr>))"
| "deliver f pr (Crash # es) st = Ends (Trail st @ [Crash]) (Exit 2 (Session st))"
| "deliver f pr (e # es) st = deliver f pr es (st\<lparr>Trail := Trail st @ [e]\<rparr>)"

fun step :: "'c world \<Rightarrow> barSend option \<Rightarrow> nat \<Rightarrow> 'c execution \<Rightarrow> turn \<Rightarrow> 'c progress" where
  "step w pr cap st ScanNext =
     (case Unread st of
        [] \<Rightarrow> Waits
      | line # rest \<Rightarrow>
          (let sURLs = snd (Unmarshal w line);
               (copied, c) = IsCopiedFn w (Copied st) (URL (SourceContent sURLs))
           in if copied
              then Goes (st\<lparr>Unread := rest, Copied := c,
                            Trail := Trail st @ IsCopied sURLs True #
                                     doMirrorFake (Flags w) sURLs pr\<rparr>)
              else if mirrorQueue st < cap
              then Goes (st\<lparr>Unread := rest, Copied := c,
                            mirrorQueue := Suc (mirrorQueue st),
                            Tasks := Tasks st @ [sURLs],
                            Trail := Trail st @ [IsCopied sURLs False, AcquireSlot]\<rparr>)
              else Waits))"
| "step w pr cap st (TaskReturns i) =
     (if i < length (Tasks st)
      then deliver (Flags w) pr
             (doMirror (Flags w) (GetSource w) (PutTargets w) (Tasks st ! i) pr)
             (st\<lparr>Tasks := take i (Tasks st) @ drop (Suc i) (Tasks st)\<rparr>)
      else Waits)"
| "step w pr cap st Interrupt =
     (case monitor (Flags w) pr (Session st) Trap of
        (out, Died x) \<Rightarrow> Ends (Trail st @ out) x
      | (out, r) \<Rightarrow> Goes (st\<lparr>Session := result_session r, Trail := Trail st @ out\<rparr>))"

fun run ::
  "'c world \<Rightarrow> barSend option \<Rightarrow> nat \<Rightarrow> 'c execution \<Rightarrow> turn list \<Rightarrow> 'c progress" where
  "run w pr cap st [] = Goes st"
| "run w pr cap st (t # ts) =
     (case step w pr cap st t of
        Goes st' \<Rightarrow> run w pr cap st' ts
      | Waits \<Rightarrow> run w pr cap st ts
      | Ends evs x \<Rightarrow> Ends evs x)"

text \<open>
  doMirrorSession after the preparation: the accounter and the progress bar are made
  from \<open>TotalBytes\<close>, the scanner reads the data file, \<open>isCopied\<close> is made from
  \<open>LastCopied\<close>, \<open>mirrorQueue\<close> is empty. When the scanner has read every line and
  every task has returned, \<open>statusCh\<close> is closed and the monitor returns.
\<close>

definition start :: "'c world \<Rightarrow> sessionV5 \<Rightarrow> 'c execution" where
  "start w session =
     \<lparr>Session = session, Unread = DataFile session,
      Copied = IsCopiedFactory w (LastCopied (Header session)),
      mirrorQueue = 0, Tasks = [], Trail = []\<rparr>"

definition execute :: "'c world \<Rightarrow> sessionV5 \<Rightarrow> turn list \<Rightarrow> event list \<times> sessionV5 outcome" where
  "execute w session turns =
     (let progressReader = newProgressReader (Flags w) (TotalBytes (Header session))
      in case run w progressReader (mirrorQueueCap (NumCPU w)) (start w session) turns of
           Ends evs x \<Rightarrow> (evs, Exits x)
         | Waits \<Rightarrow> ([], Unfinished)
         | Goes st \<Rightarrow>
             if Unread st = [] \<and> Tasks st = []
             then (case monitor (Flags w) progressReader (Session st) StatusClosed of
                     (out, Died x) \<Rightarrow> (Trail st @ out, Exits x)
                   | (out, r) \<Rightarrow> (Trail st @ out, Returns (result_session r)))
             else (Trail st, Unfinished))"

definition doMirrorSession ::
  "'c world \<Rightarrow> (mirrorURLs \<Rightarrow> bool) \<Rightarrow> marshal \<Rightarrow> prepare_input list \<Rightarrow> turn list \<Rightarrow>
   sessionV5 \<Rightarrow> event list \<times> sessionV5 outcome" where
  "doMirrorSession w isEmpty marshal arrivals turns session =
     (case prepareUnlessHasData (Flags w) isEmpty marshal arrivals session of
        (evs, Returns s) \<Rightarrow> emit evs (execute w s turns)
      | (evs, r) \<Rightarrow> (evs, r))"

section \<open>Slots along a trail\<close>

text \<open>
  The values in \<open>mirrorQueue\<close> after the events of a trail, from a given number, and
  whether along the trail every value sent finds fewer than the capacity in the channel
  and every receive finds one.
\<close>

fun held :: "nat \<Rightarrow> event list \<Rightarrow> nat" where
  "held q [] = q"
| "held q (AcquireSlot # es) = held (Suc q) es"
| "held q (ReleaseSlot # es) = held (q - 1) es"
| "held q (e # es) = held q es"

fun within :: "nat \<Rightarrow> nat \<Rightarrow> event list \<Rightarrow> bool" where
  "within cap q [] = True"
| "within cap q (AcquireSlot # es) = (q < cap \<and> within cap (Suc q) es)"
| "within cap q (ReleaseSlot # es) = (0 < q \<and> within cap (q - 1) es)"
| "within cap q (e # es) = within cap q es"

text \<open>The results of \<open>isCopied\<close> along a sequence of units, its state threaded through.\<close>

fun verdicts :: "('c \<Rightarrow> string \<Rightarrow> bool \<times> 'c) \<Rightarrow> 'c \<Rightarrow> mirrorURLs list \<Rightarrow> bool list" where
  "verdicts copied c [] = []"
| "verdicts copied c (u # us) =
     (case copied c (URL (SourceContent u)) of (b, c') \<Rightarrow> b # verdicts copied c' us)"

section \<open>Invariants of the execution\<close>

text \<open>
  The values held in \<open>mirrorQueue\<close> are as many as the running tasks, and no more than
  the capacity.
\<close>

definition pool_ok :: "nat \<Rightarrow> 'c execution \<Rightarrow> bool" where
  "pool_ok cap st = (mirrorQueue st = length (Tasks st) \<and> length (Tasks st) \<le> cap)"

text \<open>
  Every running task, and every call of \<open>putTargets\<close> so far, is for a unit on which
  \<open>isCopied\<close> has returned false.
\<close>

definition uncopied_only :: "'c execution \<Rightarrow> bool" where
  "uncopied_only st =
     ((\<forall>u \<in> set (Tasks st). IsCopied u False \<in> set (Trail st)) \<and>
      (\<forall>ts n r. PutTargetsCall ts n r \<in> set (Trail st) \<longrightarrow>
         (\<exists>u. IsCopied u False \<in> set (Trail st) \<and> ts = map URL (TargetContents u))))"

text \<open>
  The trail keeps within the capacity, and the values it leaves in \<open>mirrorQueue\<close> are
  those the state holds.
\<close>

definition trail_ok :: "nat \<Rightarrow> 'c execution \<Rightarrow> bool" where
  "trail_ok cap st = (within cap 0 (Trail st) \<and> held 0 (Trail st) = mirrorQueue st)"

text \<open>The data file and the totals of the header are those of the given session.\<close>

definition same_log :: "sessionV5 \<Rightarrow> sessionV5 \<Rightarrow> bool" where
  "same_log s s' =
     (DataFile s' = DataFile s \<and> TotalBytes (Header s') = TotalBytes (Header s) \<and>
      TotalObjects (Header s') = TotalObjects (Header s))"

section \<open>Sample inputs\<close>

text \<open>
  Flags, units and sessions to run the definitions on. The sample codec writes a unit
  as its source URL and decodes the lines \<open>src/a\<close>, \<open>src/b\<close> and \<open>src/c\<close>; any other
  line fails to decode and leaves the zero unit. The sample source client fails on
  \<open>src/c\<close> with a path not found.
\<close>

definition f0 :: flags where
  "f0 = \<lparr>globalQuietFlag = False, globalJSONFlag = False, globalDebugFlag = False\<rparr>"

definition f_quiet :: flags where
  "f_quiet = \<lparr>globalQuietFlag = True, globalJSONFlag = False, globalDebugFlag = False\<rparr>"

definition unit_a :: mirrorURLs where
  "unit_a = \<lparr>SourceContent = \<lparr>URL = ''src/a'', Size = 10\<rparr>,
             TargetContents = [\<lparr>URL = ''dst/a'', Size = 0\<rparr>], Error = None\<rparr>"

definition header0 :: sessionHeader where
  "header0 = \<lparr>CommandType = ''mirror'', CommandArgs = [''src'', ''dst''],
              CommandBoolFlags = [(''force'', False)], RootPath = ''/'',
              TotalBytes = 0, TotalObjects = 0, LastCopied = []\<rparr>"

definition s0 :: sessionV5 where
  "s0 = \<lparr>Header = header0, Persisted = None, DataFile = [], Deleted = False, Saves = 0\<rparr>"

definition unit_b :: mirrorURLs where
  "unit_b = \<lparr>SourceContent = \<lparr>URL = ''src/b'', Size = 20\<rparr>,
             TargetContents = [\<lparr>URL = ''dst/b'', Size = 0\<rparr>], Error = None\<rparr>"

definition unit_c :: mirrorURLs where
  "unit_c = \<lparr>SourceContent = \<lparr>URL = ''src/c'', Size = 30\<rparr>,
             TargetContents = [\<lparr>URL = ''dst/c'', Size = 0\<rparr>], Error = None\<rparr>"

definition zero_unit :: mirrorURLs where
  "zero_unit = \<lparr>SourceContent = \<lparr>URL = [], Size = 0\<rparr>, TargetContents = [], Error = None\<rparr>"

definition isEmpty0 :: "mirrorURLs \<Rightarrow> bool" where
  "isEmpty0 u = (URL (SourceContent u) = [] \<and> TargetContents u = [])"

definition marshal0 :: marshal where
  "marshal0 u = Inr (URL (SourceContent u))"

definition unmarshal0 :: "string \<Rightarrow> go_error option \<times> mirrorURLs" where
  "unmarshal0 line =
     (if line = ''src/a'' then (None, unit_a)
      else if line = ''src/b'' then (None, unit_b)
      else if line = ''src/c'' then (None, unit_c)
      else (Some (OtherError ''invalid character''), zero_unit))"

definition getSource0 :: get_source where
  "getSource0 url =
     (if url = ''src/c'' then (NilReader, 0, Some (NewError PathNotFound))
      else if url = ''src/b'' then (SourceReader url, 20, None)
      else (SourceReader url, 10, None))"

definition putTargets0 :: put_targets where
  "putTargets0 ts n r = None"

definition w0 :: "(string \<times> bool) world" where
  "w0 = \<lparr>Flags = f0, NumCPU = 2, GetSource = getSource0, PutTargets = putTargets0,
         Unmarshal = unmarshal0, IsCopiedFactory = isCopiedFactory, IsCopiedFn = isCopied\<rparr>"

text \<open>
  A session left by an interrupted run, with \<open>src/a\<close> copied; a session whose data
  file holds a line that is not JSON; and a state of the execution, reached in the
  sample run below.
\<close>

definition s_resume :: sessionV5 where
  "s_resume = \<lparr>Header = header0\<lparr>TotalBytes := 60, TotalObjects := 3, LastCopied := ''src/a''\<rparr>,
               Persisted = Some (header0\<lparr>TotalBytes := 60, TotalObjects := 3,
                                         LastCopied := ''src/a''\<rparr>),
               DataFile = [''src/a'', ''src/b'', ''src/c''], Deleted = False, Saves = 2\<rparr>"

definition s_broken :: sessionV5 where
  "s_broken = \<lparr>Header = header0\<lparr>TotalBytes := 10, TotalObjects := 1\<rparr>,
               Persisted = Some (header0\<lparr>TotalBytes := 10, TotalObjects := 1\<rparr>),
               DataFile = [''{''], Deleted = False, Saves = 1\<rparr>"

definition st_resumed :: "(string \<times> bool) execution" where
  "st_resumed =
     \<lparr>Session = Save (s_resume\<lparr>Header := (Header s_resume)\<lparr>LastCopied := ''src/b''\<rparr>\<rparr>),
      Unread = [''src/c''], Copied = (''src/a'', False), mirrorQueue = 0, Tasks = [],
      Trail = [IsCopied unit_a True, BarCall (Some (BarSend 60)) (Progress 10),
               IsCopied unit_b False, AcquireSlot,
               BarCall (Some (BarSend 60)) (SetCaption ''src/b: ''),
               GetSourceCall ''src/b'', BarCall (Some (BarSend 60)) NewProxyReader,
               PutTargetsCall [''dst/b''] 20 (ProgressProxy (SourceReader ''src/b'')),
               Send unit_b, CloseReader (ProgressProxy (SourceReader ''src/b'')),
               ReleaseSlot, WgDone]\<rparr>"

text \<open>
  A machine with three CPUs, a session prepared and not yet started, and the state of
  its execution after two turns of the scanner.
\<close>

definition w3 :: "(string \<times> bool) world" where
  "w3 = w0\<lparr>NumCPU := 3\<rparr>"

definition s_fresh :: sessionV5 where
  "s_fresh = \<lparr>Header = header0\<lparr>TotalBytes := 60, TotalObjects := 3\<rparr>,
              Persisted = Some (header0\<lparr>TotalBytes := 60, TotalObjects := 3\<rparr>),
              DataFile = [''src/a'', ''src/b'', ''src/c''], Deleted = False, Saves = 1\<rparr>"

definition st_two_tasks :: "(string \<times> bool) execution" where
  "st_two_tasks =
     \<lparr>Session = s_fresh, Unread = [''src/c''], Copied = ([], True), mirrorQueue = 2,
      Tasks = [unit_a, unit_b],
      Trail = [IsCopied unit_a False, AcquireSlot, IsCopied unit_b False, AcquireSlot]\<rparr>"

section \<open>Auxiliary facts\<close>

subsection \<open>Signed reading of word sums\<close>

lemma sum_list_word_of_int: "(sum_list ws :: 'a::len word) = word_of_int (sum_list (map sint ws))"
  by (induction ws) simp_all

lemma sint_sum_list_exact:
  fixes ws :: "int64 list"
  assumes "- (2 ^ 63) \<le> sum_list (map sint ws)" "sum_list (map sint ws) < 2 ^ 63"
  shows "sint (sum_list ws) = sum_list (map sint ws)"
proof -
  have "sint (sum_list ws) = signed_take_bit 63 (sum_list (map sint ws))"
    by (subst sum_list_word_of_int) (simp add: sint_sbintrunc')
  then show ?thesis using assms by (simp add: signed_take_bit_int_eq_self)
qed

lemma sint_of_nat_exact:
  assumes "n < 2 ^ 63"
  shows "sint (of_nat n :: int64) = int n"
proof -
  have "(of_nat n :: int64) = word_of_int (int n)" by simp
  then have "sint (of_nat n :: int64) = signed_take_bit 63 (int n)"
    by (simp only: sint_sbintrunc') simp
  moreover have "int n < 2 ^ 63" using assms by (metis of_nat_less_iff of_nat_numeral of_nat_power)
  moreover have "- (2 ^ 63) \<le> int n" by simp
  ultimately show ?thesis by (simp only: signed_take_bit_int_eq_self)
qed

subsection \<open>The preparation loop\<close>

lemma emit_snd: "snd (emit out p) = snd p"
  by (cases p) simp

lemma emit_Nil: "emit [] p = p"
  by (cases p) simp

lemma prepareLoop_prefix:
  assumes "\<forall>u \<in> set (written isEmpty us). \<exists>j. marshal u = Inr j"
  shows "snd (prepareLoop f isEmpty marshal (map FromURLsCh us @ rest) s tb tobj) =
     snd (prepareLoop f isEmpty marshal rest
            (s\<lparr>DataFile := DataFile s @ map (projr \<circ> marshal) (written isEmpty us)\<rparr>)
            (tb + sum_list (map (Size \<circ> SourceContent) (written isEmpty us)))
            (tobj + of_nat (length (written isEmpty us))))"
  using assms
proof (induction us arbitrary: s tb tobj)
  case Nil
  then show ?case by (simp add: written_def)
next
  case (Cons u us)
  have rest: "\<forall>u \<in> set (written isEmpty us). \<exists>j. marshal u = Inr j"
    using Cons.prems by (simp add: written_def)
  note IH = Cons.IH [OF rest]
  show ?case
  proof (cases "Error u = None \<and> \<not> isEmpty u")
    case True
    then have "u \<in> set (written isEmpty (u # us))" by (simp add: written_def)
    then obtain j where j: "marshal u = Inr j" using Cons.prems by blast
    have w: "written isEmpty (u # us) = u # written isEmpty us"
      using True by (simp add: written_def)
    show ?thesis using True j by (simp add: w emit_snd IH add.assoc)
  next
    case False
    then have w: "written isEmpty (u # us) = written isEmpty us"
      by (auto simp: written_def)
    show ?thesis using False by (auto simp: w emit_snd IH split: option.splits)
  qed
qed

lemma prepareLoop_returns:
  assumes "\<forall>u \<in> set (written isEmpty us). \<exists>j. marshal u = Inr j"
  shows "snd (prepareLoop f isEmpty marshal (map FromURLsCh us) s tb tobj) =
     Returns (s\<lparr>DataFile := DataFile s @ map (projr \<circ> marshal) (written isEmpty us)\<rparr>,
              tb + sum_list (map (Size \<circ> SourceContent) (written isEmpty us)),
              tobj + of_nat (length (written isEmpty us)))"
  using prepareLoop_prefix [OF assms, of f "[]" s tb tobj] by simp

subsection \<open>Tasks, the monitor and the turns of the execution\<close>

lemma doMirror_releases_once:
  "count_list (doMirror f g p u pr) ReleaseSlot = 1"
  by (cases "g (URL (SourceContent u))")
     (simp add: doMirror_def Let_def split: option.splits)

lemma deliver_keeps:
  "deliver f pr evs st = Goes st' \<Longrightarrow>
     mirrorQueue st' + count_list evs ReleaseSlot = mirrorQueue st \<and>
     Tasks st' = Tasks st \<and> Unread st' = Unread st \<and> Copied st' = Copied st"
proof (induction f pr evs st rule: deliver.induct)
  case (2 f pr m es st)
  then show ?case
    by (cases "monitor f pr (Session st) (Status m)"; cases "snd (monitor f pr (Session st) (Status m))")
       (auto split: prod.splits monitor_result.splits)
next
  case (3 f pr es st)
  then show ?case by (auto split: if_splits)
qed auto

lemma deliver_never_waits:
  "count_list evs ReleaseSlot \<le> mirrorQueue st \<Longrightarrow> deliver f pr evs st \<noteq> Waits"
proof (induction f pr evs st rule: deliver.induct)
  case (2 f pr m es st)
  then show ?case
    by (cases "monitor f pr (Session st) (Status m)"; cases "snd (monitor f pr (Session st) (Status m))")
       (auto split: prod.splits monitor_result.splits)
qed auto

lemma monitor_out_plain:
  "ev \<in> set (fst (monitor f pr s inp)) \<Longrightarrow> \<not> is_PutTargets ev"
  by (cases inp) (auto simp: Let_def split: option.splits go_error.splits if_splits)

lemma deliver_trail:
  "deliver f pr evs st = Goes st' \<Longrightarrow>
     set (Trail st) \<subseteq> set (Trail st') \<and>
     (\<forall>e \<in> set (Trail st'). is_PutTargets e \<longrightarrow> e \<in> set (Trail st) \<union> set evs)"
proof (induction f pr evs st arbitrary: st' rule: deliver.induct)
  case (2 f pr m es st)
  obtain out r where m: "monitor f pr (Session st) (Status m) = (out, r)" by fastforce
  have out: "\<forall>e \<in> set out. \<not> is_PutTargets e"
    using monitor_out_plain [of _ f pr "Session st" "Status m"] m by simp
  show ?case
  proof (cases r)
    case (Died x)
    then show ?thesis using 2 m by simp
  next
    case (Continue s1)
    with 2 m out show ?thesis by (fastforce simp: subset_iff)
  next
    case (Return s1)
    with 2 m out show ?thesis by (fastforce simp: subset_iff)
  qed
next
  case (3 f pr es st)
  then show ?case by (fastforce split: if_splits)
qed (fastforce+)

lemma doMirror_PutTargets:
  "PutTargetsCall ts n r \<in> set (doMirror f g p u pr) \<Longrightarrow> ts = map URL (TargetContents u)"
  by (cases "g (URL (SourceContent u))")
     (auto simp: doMirror_def Let_def split: option.splits if_splits)

lemma doMirrorFake_plain:
  "ev \<in> set (doMirrorFake f u pr) \<Longrightarrow> \<not> is_PutTargets ev"
  by (auto simp: doMirrorFake_def split: if_splits)

lemma monitor_keeps:
  "DataFile (result_session (snd (monitor f pr s inp))) = DataFile s \<and>
   TotalBytes (Header (result_session (snd (monitor f pr s inp)))) = TotalBytes (Header s) \<and>
   TotalObjects (Header (result_session (snd (monitor f pr s inp)))) = TotalObjects (Header s)"
  by (cases inp)
     (auto simp: Let_def Save_def CloseAndDie_def split: option.splits go_error.splits)

subsection \<open>The invariants hold along every schedule\<close>

lemma step_pool_ok:
  assumes "pool_ok cap st" "step w pr cap st t = Goes st'"
  shows "pool_ok cap st'"
proof (cases t)
  case ScanNext
  then show ?thesis using assms
    by (auto simp: pool_ok_def Let_def split: list.splits prod.splits if_splits)
next
  case (TaskReturns i)
  with assms have i: "i < length (Tasks st)" by (auto split: if_splits)
  let ?st = "st\<lparr>Tasks := take i (Tasks st) @ drop (Suc i) (Tasks st)\<rparr>"
  have d: "deliver (Flags w) pr (doMirror (Flags w) (GetSource w) (PutTargets w) (Tasks st ! i) pr) ?st = Goes st'"
    using assms TaskReturns i by simp
  from deliver_keeps [OF d] have "mirrorQueue st' + 1 = mirrorQueue st" "Tasks st' = Tasks ?st"
    by (simp_all add: doMirror_releases_once)
  then show ?thesis using assms(1) i by (auto simp: pool_ok_def)
next
  case Interrupt
  then show ?thesis using assms
    by (auto simp: pool_ok_def split: prod.splits monitor_result.splits)
qed

lemma run_pool_ok:
  "pool_ok cap st \<Longrightarrow> run w pr cap st ts = Goes st' \<Longrightarrow> pool_ok cap st'"
proof (induction ts arbitrary: st)
  case Nil
  then show ?case by simp
next
  case (Cons t ts)
  then show ?case
    by (cases "step w pr cap st t") (auto dest: step_pool_ok)
qed

lemma uncopied_only_extend:
  assumes "uncopied_only st" and "Trail st' = Trail st @ X"
    and "\<forall>e \<in> set X. \<not> is_PutTargets e"
    and "\<forall>u \<in> set (Tasks st'). u \<in> set (Tasks st) \<or> IsCopied u False \<in> set X"
  shows "uncopied_only st'"
  unfolding uncopied_only_def
proof (intro conjI ballI allI impI)
  fix v assume "v \<in> set (Tasks st')"
  then show "IsCopied v False \<in> set (Trail st')"
    using assms by (auto simp: uncopied_only_def)
next
  fix ts n r assume "PutTargetsCall ts n r \<in> set (Trail st')"
  then have "PutTargetsCall ts n r \<in> set (Trail st)"
    using assms(2,3) by auto
  then obtain u where "IsCopied u False \<in> set (Trail st)" "ts = map URL (TargetContents u)"
    using assms(1) unfolding uncopied_only_def by blast
  then show "\<exists>u. IsCopied u False \<in> set (Trail st') \<and> ts = map URL (TargetContents u)"
    using assms(2) by auto
qed

lemma step_uncopied_only:
  assumes "uncopied_only st" "step w pr cap st t = Goes st'"
  shows "uncopied_only st'"
proof (cases t)
  case ScanNext
  then obtain line rest where l: "Unread st = line # rest"
    using assms(2) by (cases "Unread st") auto
  let ?u = "snd (Unmarshal w line)"
  obtain b c where v: "IsCopiedFn w (Copied st) (URL (SourceContent ?u)) = (b, c)"
    by fastforce
  show ?thesis
  proof (cases b)
    case True
    then have "st' = st\<lparr>Unread := rest, Copied := c,
                 Trail := Trail st @ IsCopied ?u True # doMirrorFake (Flags w) ?u pr\<rparr>"
      using assms(2) ScanNext l v by (simp add: Let_def)
    then show ?thesis
      by (intro uncopied_only_extend [OF assms(1),
            of _ "IsCopied ?u True # doMirrorFake (Flags w) ?u pr"])
         (auto dest: doMirrorFake_plain)
  next
    case False
    then have "st' = st\<lparr>Unread := rest, Copied := c, mirrorQueue := Suc (mirrorQueue st),
                 Tasks := Tasks st @ [?u],
                 Trail := Trail st @ [IsCopied ?u False, AcquireSlot]\<rparr>"
      using assms(2) ScanNext l v by (simp add: Let_def split: if_splits)
    then show ?thesis
      by (intro uncopied_only_extend [OF assms(1), of _ "[IsCopied ?u False, AcquireSlot]"])
         auto
  qed
next
  case (TaskReturns i)
  with assms have i: "i < length (Tasks st)" by (auto split: if_splits)
  let ?u = "Tasks st ! i"
  let ?st = "st\<lparr>Tasks := take i (Tasks st) @ drop (Suc i) (Tasks st)\<rparr>"
  let ?evs = "doMirror (Flags w) (GetSource w) (PutTargets w) ?u pr"
  have d: "deliver (Flags w) pr ?evs ?st = Goes st'"
    using assms TaskReturns i by simp
  have tasks: "Tasks st' = Tasks ?st" using deliver_keeps [OF d] by simp
  have sub: "set (Trail st) \<subseteq> set (Trail st')"
    and put: "\<forall>e \<in> set (Trail st'). is_PutTargets e \<longrightarrow> e \<in> set (Trail st) \<union> set ?evs"
    using deliver_trail [OF d] by simp_all
  have u: "IsCopied ?u False \<in> set (Trail st)"
    using assms(1) i by (simp add: uncopied_only_def)
  have t: "set (Tasks st') \<subseteq> set (Tasks st)"
    unfolding tasks by (auto dest: in_set_takeD in_set_dropD)
  show ?thesis
    unfolding uncopied_only_def
  proof (intro conjI ballI allI impI)
    fix v assume "v \<in> set (Tasks st')"
    then show "IsCopied v False \<in> set (Trail st')"
      using t sub assms(1) by (auto simp: uncopied_only_def)
  next
    fix ts n r assume p: "PutTargetsCall ts n r \<in> set (Trail st')"
    then have "PutTargetsCall ts n r \<in> set (Trail st) \<union> set ?evs" using put by force
    then show "\<exists>u. IsCopied u False \<in> set (Trail st') \<and> ts = map URL (TargetContents u)"
    proof
      assume "PutTargetsCall ts n r \<in> set (Trail st)"
      then obtain v where "IsCopied v False \<in> set (Trail st)" "ts = map URL (TargetContents v)"
        using assms(1) unfolding uncopied_only_def by blast
      then show ?thesis using sub by auto
    next
      assume "PutTargetsCall ts n r \<in> set ?evs"
      then have "ts = map URL (TargetContents ?u)" by (rule doMirror_PutTargets)
      then show ?thesis using u sub by auto
    qed
  qed
next
  case Interrupt
  then show ?thesis using assms
    by (auto simp: uncopied_only_def split: prod.splits monitor_result.splits if_splits)
qed

lemma run_uncopied_only:
  "uncopied_only st \<Longrightarrow> run w pr cap st ts = Goes st' \<Longrightarrow> uncopied_only st'"
proof (induction ts arbitrary: st)
  case Nil
  then show ?case by simp
next
  case (Cons t ts)
  then show ?case
    by (cases "step w pr cap st t") (auto dest: step_uncopied_only)
qed

lemma deliver_same_log:
  "deliver f pr evs st = Goes st' \<Longrightarrow> same_log s (Session st) \<Longrightarrow> same_log s (Session st')"
proof (induction f pr evs st rule: deliver.induct)
  case (2 f pr m es st)
  obtain out r where mon: "monitor f pr (Session st) (Status m) = (out, r)" by fastforce
  have k: "same_log s (result_session r)"
    using monitor_keeps [of f pr "Session st" "Status m"] mon "2.prems"(2)
    by (simp add: same_log_def del: monitor.simps)
  show ?case
  proof (cases r)
    case (Died x)
    then show ?thesis using "2.prems"(1) mon by (simp del: monitor.simps)
  next
    case (Continue s1)
    then show ?thesis using "2.IH"(1) [OF mon [symmetric] Continue] "2.prems"(1) mon k
      by (simp del: monitor.simps)
  next
    case (Return s1)
    then show ?thesis using "2.IH"(2) [OF mon [symmetric] Return] "2.prems"(1) mon k
      by (simp del: monitor.simps)
  qed
next
  case (3 f pr es st)
  then show ?case by (auto split: if_splits)
qed auto

lemma step_same_log:
  assumes "step w pr cap st t = Goes st'" "same_log s (Session st)"
  shows "same_log s (Session st')"
proof (cases t)
  case ScanNext
  then show ?thesis using assms
    by (auto simp: Let_def split: list.splits prod.splits if_splits)
next
  case (TaskReturns i)
  then show ?thesis using assms
    by (auto split: if_splits dest!: deliver_same_log [where s = s])
next
  case Interrupt
  then show ?thesis using assms
    by (auto split: prod.splits monitor_result.splits)
qed

lemma run_same_log:
  "run w pr cap st ts = Goes st' \<Longrightarrow> same_log s (Session st) \<Longrightarrow> same_log s (Session st')"
proof (induction ts arbitrary: st)
  case Nil
  then show ?case by simp
next
  case (Cons t ts)
  then show ?case
    by (cases "step w pr cap st t") (auto dest: step_same_log)
qed

lemma start_pool_ok: "pool_ok cap (start w session)"
  by (simp add: pool_ok_def start_def)

lemma start_uncopied_only: "uncopied_only (start w session)"
  by (simp add: uncopied_only_def start_def)

subsection \<open>Slots along the trail of an execution\<close>

lemma held_append: "held q (xs @ ys) = held (held q xs) ys"
  by (induction q xs rule: held.induct) simp_all

lemma within_append:
  "within cap q (xs @ ys) = (within cap q xs \<and> within cap (held q xs) ys)"
  by (induction cap q xs rule: within.induct) simp_all

lemma slots_plain:
  "AcquireSlot \<notin> set xs \<Longrightarrow> ReleaseSlot \<notin> set xs \<Longrightarrow> within cap q xs \<and> held q xs = q"
  by (induction cap q xs rule: within.induct) simp_all

lemma monitor_out_slots:
  "AcquireSlot \<notin> set (fst (monitor f pr s inp)) \<and> ReleaseSlot \<notin> set (fst (monitor f pr s inp))"
  by (cases inp) (auto simp: Let_def split: option.splits go_error.splits)

lemma doMirrorFake_slots:
  "AcquireSlot \<notin> set (doMirrorFake f u pr) \<and> ReleaseSlot \<notin> set (doMirrorFake f u pr)"
  by (simp add: doMirrorFake_def)

lemma doMirror_no_acquire: "AcquireSlot \<notin> set (doMirror f g p u pr)"
  by (cases "g (URL (SourceContent u))")
     (simp add: doMirror_def Let_def split: option.splits)

lemma trail_ok_extend_plain:
  assumes "trail_ok cap st" "AcquireSlot \<notin> set xs" "ReleaseSlot \<notin> set xs"
  shows "within cap 0 (Trail st @ xs) \<and> held 0 (Trail st @ xs) = mirrorQueue st"
  using assms slots_plain [OF assms(2,3), of cap "mirrorQueue st"]
  by (simp add: trail_ok_def within_append held_append)

lemma trail_ok_log:
  "trail_ok cap st \<Longrightarrow> e \<noteq> AcquireSlot \<Longrightarrow> e \<noteq> ReleaseSlot \<Longrightarrow>
     trail_ok cap (st\<lparr>Trail := Trail st @ [e]\<rparr>)"
  using trail_ok_extend_plain [of cap st "[e]"] by (simp add: trail_ok_def)

lemma deliver_plain:
  "e \<noteq> Crash \<Longrightarrow> e \<noteq> ReleaseSlot \<Longrightarrow> (\<forall>m. e \<noteq> Send m) \<Longrightarrow>
     deliver f pr (e # es) st = deliver f pr es (st\<lparr>Trail := Trail st @ [e]\<rparr>)"
  by (cases e) simp_all

lemma deliver_trail_ok:
  assumes "trail_ok cap st" "AcquireSlot \<notin> set evs"
  shows "(\<forall>st'. deliver f pr evs st = Goes st' \<longrightarrow> trail_ok cap st') \<and>
         (\<forall>tr x. deliver f pr evs st = Ends tr x \<longrightarrow> within cap 0 tr)"
  using assms
proof (induction evs arbitrary: st)
  case Nil
  then show ?case by simp
next
  case (Cons e es)
  have es: "AcquireSlot \<notin> set es" and e: "e \<noteq> AcquireSlot" using Cons.prems(2) by auto
  consider (send) m where "e = Send m" | (release) "e = ReleaseSlot" | (crash) "e = Crash"
    | (plain) "e \<noteq> Crash" "e \<noteq> ReleaseSlot" "\<forall>m. e \<noteq> Send m"
    by blast
  then show ?case
  proof cases
    case (send m)
    obtain out r where mon: "monitor f pr (Session st) (Status m) = (out, r)" by fastforce
    have plain: "AcquireSlot \<notin> set (Send m # out)" "ReleaseSlot \<notin> set (Send m # out)"
      using monitor_out_slots [of f pr "Session st" "Status m"] mon by simp_all
    note ext = trail_ok_extend_plain [OF Cons.prems(1) plain]
    let ?st = "st\<lparr>Session := result_session r, Trail := Trail st @ Send m # out\<rparr>"
    have ok: "trail_ok cap ?st" using ext by (simp add: trail_ok_def)
    show ?thesis
    proof (cases r)
      case (Died x)
      then show ?thesis using mon ext send by (simp del: monitor.simps)
    next
      case (Continue s1)
      then have "deliver f pr (e # es) st = deliver f pr es ?st"
        using mon send by (simp del: monitor.simps)
      then show ?thesis using Cons.IH [OF ok es] by simp
    next
      case (Return s1)
      then have "deliver f pr (e # es) st = deliver f pr es ?st"
        using mon send by (simp del: monitor.simps)
      then show ?thesis using Cons.IH [OF ok es] by simp
    qed
  next
    case release
    show ?thesis
    proof (cases "mirrorQueue st = 0")
      case True
      then show ?thesis using release by simp
    next
      case False
      let ?st = "st\<lparr>mirrorQueue := mirrorQueue st - 1, Trail := Trail st @ [ReleaseSlot]\<rparr>"
      have ok: "trail_ok cap ?st"
        using Cons.prems(1) False by (simp add: trail_ok_def within_append held_append)
      have "deliver f pr (e # es) st = deliver f pr es ?st"
        using release False by simp
      then show ?thesis using Cons.IH [OF ok es] by simp
    qed
  next
    case crash
    have "within cap 0 (Trail st @ [Crash])"
      using trail_ok_extend_plain [OF Cons.prems(1), of "[Crash]"] by simp
    then show ?thesis using crash by simp
  next
    case plain
    have ok: "trail_ok cap (st\<lparr>Trail := Trail st @ [e]\<rparr>)"
      using trail_ok_log [OF Cons.prems(1) e plain(2)] .
    show ?thesis
      using Cons.IH [OF ok es] deliver_plain [OF plain, of f pr es st] by simp
  qed
qed

lemma step_trail_ok:
  assumes "trail_ok cap st"
  shows "(\<forall>st'. step w pr cap st t = Goes st' \<longrightarrow> trail_ok cap st') \<and>
         (\<forall>tr x. step w pr cap st t = Ends tr x \<longrightarrow> within cap 0 tr)"
proof (cases t)
  case ScanNext
  show ?thesis
  proof (cases "Unread st")
    case Nil
    then show ?thesis using ScanNext by simp
  next
    case (Cons line rest)
    let ?u = "snd (Unmarshal w line)"
    obtain b c where v: "IsCopiedFn w (Copied st) (URL (SourceContent ?u)) = (b, c)"
      by fastforce
    show ?thesis
    proof (cases b)
      case True
      have "within cap 0 (Trail st @ IsCopied ?u True # doMirrorFake (Flags w) ?u pr) \<and>
            held 0 (Trail st @ IsCopied ?u True # doMirrorFake (Flags w) ?u pr) = mirrorQueue st"
        using trail_ok_extend_plain [OF assms, of "IsCopied ?u True # doMirrorFake (Flags w) ?u pr"]
          doMirrorFake_slots [of "Flags w" ?u pr] by simp
      then show ?thesis using ScanNext Cons v True by (simp add: Let_def trail_ok_def)
    next
      case False
      show ?thesis
        using ScanNext Cons v False assms
        by (simp add: Let_def trail_ok_def within_append held_append)
    qed
  qed
next
  case (TaskReturns i)
  show ?thesis
  proof (cases "i < length (Tasks st)")
    case True
    let ?st = "st\<lparr>Tasks := take i (Tasks st) @ drop (Suc i) (Tasks st)\<rparr>"
    have ok: "trail_ok cap ?st" using assms by (simp add: trail_ok_def)
    show ?thesis
      using deliver_trail_ok [OF ok doMirror_no_acquire] TaskReturns True by simp
  next
    case False
    then show ?thesis using TaskReturns by simp
  qed
next
  case Interrupt
  obtain out r where mon: "monitor (Flags w) pr (Session st) Trap = (out, r)" by fastforce
  have plain: "AcquireSlot \<notin> set out" "ReleaseSlot \<notin> set out"
    using monitor_out_slots [of "Flags w" pr "Session st" Trap] mon
    by (simp_all del: monitor.simps)
  note ext = trail_ok_extend_plain [OF assms plain]
  show ?thesis
    using Interrupt mon ext by (cases r) (simp_all add: trail_ok_def del: monitor.simps)
qed

lemma run_trail_ok:
  "trail_ok cap st \<Longrightarrow>
     (\<forall>st'. run w pr cap st ts = Goes st' \<longrightarrow> trail_ok cap st') \<and>
     (\<forall>tr x. run w pr cap st ts = Ends tr x \<longrightarrow> within cap 0 tr)"
proof (induction ts arbitrary: st)
  case Nil
  then show ?case by simp
next
  case (Cons t ts)
  show ?case
  proof (cases "step w pr cap st t")
    case (Goes st1)
    then have "trail_ok cap st1" using step_trail_ok [OF Cons.prems, of w pr t] by simp
    from Cons.IH [OF this] show ?thesis using Goes by simp
  next
    case Waits
    then show ?thesis using Cons.IH [OF Cons.prems] by simp
  next
    case (Ends tr x)
    then show ?thesis using step_trail_ok [OF Cons.prems, of w pr t] by simp
  qed
qed

lemma run_never_waits: "run w pr cap st ts \<noteq> Waits"
proof (induction ts arbitrary: st)
  case Nil
  then show ?case by simp
next
  case (Cons t ts)
  then show ?case by (cases "step w pr cap st t") simp_all
qed

lemma start_trail_ok: "trail_ok cap (start w session)"
  by (simp add: trail_ok_def start_def)

lemma execute_within:
  "within (mirrorQueueCap (NumCPU w)) 0 (fst (execute w session turns))"
proof -
  let ?pr = "newProgressReader (Flags w) (TotalBytes (Header session))"
  let ?cap = "mirrorQueueCap (NumCPU w)"
  let ?r = "run w ?pr ?cap (start w session) turns"
  have inv: "(\<forall>st'. ?r = Goes st' \<longrightarrow> trail_ok ?cap st') \<and>
             (\<forall>tr x. ?r = Ends tr x \<longrightarrow> within ?cap 0 tr)"
    by (rule run_trail_ok [OF start_trail_ok])
  show ?thesis
  proof (cases ?r)
    case (Goes st)
    then have ok: "trail_ok ?cap st" using inv by simp
    obtain out r where mon: "monitor (Flags w) ?pr (Session st) StatusClosed = (out, r)"
      by fastforce
    have plain: "AcquireSlot \<notin> set out" "ReleaseSlot \<notin> set out"
      using monitor_out_slots [of "Flags w" ?pr "Session st" StatusClosed] mon
      by (simp_all del: monitor.simps)
    note ext = trail_ok_extend_plain [OF ok plain]
    have "fst (execute w session turns) = Trail st \<or>
          fst (execute w session turns) = Trail st @ out"
      using Goes mon by (cases r) (simp_all add: execute_def Let_def del: monitor.simps)
    then show ?thesis using ok ext by (auto simp: trail_ok_def)
  next
    case Waits
    then show ?thesis using run_never_waits by blast
  next
    case (Ends tr x)
    then have "within ?cap 0 tr" using inv by simp
    then show ?thesis using Ends by (simp add: execute_def Let_def)
  qed
qed

lemma doMirror_release_last:
  "\<exists>pre. ReleaseSlot \<notin> set pre \<and>
     (doMirror f g p u pr = pre @ [ReleaseSlot, WgDone] \<and> length (sent pre) = 1 \<or>
      doMirror f g p u pr = pre @ [ReleaseSlot, WgDone, Crash] \<and> sent pre = [] \<and>
        filter is_PutTargets pre = [])"
proof -
  let ?pre = "takeWhile (\<lambda>e. e \<noteq> ReleaseSlot) (doMirror f g p u pr)"
  have "ReleaseSlot \<notin> set ?pre" by (auto dest: set_takeWhileD)
  moreover have
    "doMirror f g p u pr = ?pre @ [ReleaseSlot, WgDone] \<and> length (sent ?pre) = 1 \<or>
     doMirror f g p u pr = ?pre @ [ReleaseSlot, WgDone, Crash] \<and> sent ?pre = [] \<and>
       filter is_PutTargets ?pre = []"
    by (cases "g (URL (SourceContent u))")
       (simp add: doMirror_def Let_def split: option.splits)
  ultimately show ?thesis by blast
qed

lemma mirrorQueueCap_pos: "0 < mirrorQueueCap n"
  by (simp add: mirrorQueueCap_def)

lemma run_fills:
  assumes "k + mirrorQueue st \<le> cap" "k \<le> length (Unread st)"
    "True \<notin> set (verdicts (IsCopiedFn w) (Copied st)
                     (map (\<lambda>l. snd (Unmarshal w l)) (take k (Unread st))))"
  shows "\<exists>st'. run w pr cap st (replicate k ScanNext) = Goes st' \<and>
               mirrorQueue st' = mirrorQueue st + k \<and>
               length (Tasks st') = length (Tasks st) + k"
  using assms
proof (induction k arbitrary: st)
  case 0
  then show ?case by simp
next
  case (Suc k)
  then obtain line rest where l: "Unread st = line # rest" by (cases "Unread st") auto
  let ?u = "snd (Unmarshal w line)"
  obtain b c where v: "IsCopiedFn w (Copied st) (URL (SourceContent ?u)) = (b, c)"
    by fastforce
  have b: "\<not> b" and rest: "True \<notin> set (verdicts (IsCopiedFn w) c
                     (map (\<lambda>l. snd (Unmarshal w l)) (take k rest)))"
    using Suc.prems(3) l v by auto
  let ?st = "st\<lparr>Unread := rest, Copied := c, mirrorQueue := Suc (mirrorQueue st),
                Tasks := Tasks st @ [?u],
                Trail := Trail st @ [IsCopied ?u False, AcquireSlot]\<rparr>"
  have s: "step w pr cap st ScanNext = Goes ?st"
    using l v b Suc.prems(1) by (simp add: Let_def)
  have "\<exists>st'. run w pr cap ?st (replicate k ScanNext) = Goes st' \<and>
               mirrorQueue st' = mirrorQueue ?st + k \<and>
               length (Tasks st') = length (Tasks ?st) + k"
    using Suc.prems(1,2) l rest by (intro Suc.IH) simp_all
  then show ?case using s by auto
qed

lemma execute_fills:
  assumes "mirrorQueueCap (NumCPU w) \<le> length (DataFile session)"
    "True \<notin> set (verdicts (IsCopiedFn w) (IsCopiedFactory w (LastCopied (Header session)))
                     (map (\<lambda>l. snd (Unmarshal w l))
                        (take (mirrorQueueCap (NumCPU w)) (DataFile session))))"
  shows "held 0 (fst (execute w session (replicate (mirrorQueueCap (NumCPU w)) ScanNext)))
           = mirrorQueueCap (NumCPU w)"
proof -
  let ?pr = "newProgressReader (Flags w) (TotalBytes (Header session))"
  let ?cap = "mirrorQueueCap (NumCPU w)"
  let ?turns = "replicate ?cap ScanNext"
  have "\<exists>st'. run w ?pr ?cap (start w session) ?turns = Goes st' \<and>
               mirrorQueue st' = mirrorQueue (start w session) + ?cap \<and>
               length (Tasks st') = length (Tasks (start w session)) + ?cap"
    using assms by (intro run_fills) (simp_all add: start_def)
  then obtain st where r: "run w ?pr ?cap (start w session) ?turns = Goes st"
    and q: "mirrorQueue st = ?cap" and t: "length (Tasks st) = ?cap"
    by (auto simp: start_def)
  have "Tasks st \<noteq> []" using t mirrorQueueCap_pos [of "NumCPU w"] by auto
  then have "fst (execute w session ?turns) = Trail st"
    using r by (simp add: execute_def Let_def)
  moreover have "trail_ok ?cap st"
    using run_trail_ok [OF start_trail_ok] r by blast
  ultimately show ?thesis using q by (simp add: trail_ok_def)
qed

subsection \<open>Sample runs\<close>

lemmas sample_defs = w0_def f0_def s_resume_def s_broken_def header0_def unit_a_def unit_b_def
  unit_c_def zero_unit_def unmarshal0_def getSource0_def putTargets0_def marshal0_def
  isEmpty0_def isCopiedFactory_def start_def s0_def

lemma sample_run_resume:
  "run w0 (Some (BarSend 60)) 1 (start w0 s_resume) [ScanNext, ScanNext, TaskReturns 0] =
     Goes st_resumed"
  by (simp add: sample_defs st_resumed_def doMirror_def doMirrorFake_def Let_def Save_def)

lemma sample_run_two_tasks:
  "run w3 (Some (BarSend 60)) 2 (start w3 s_fresh) [ScanNext, ScanNext] = Goes st_two_tasks"
  by (simp add: sample_defs w3_def s_fresh_def st_two_tasks_def Let_def)

section \<open>Properties of the status monitor\<close>

text \<open>
  C1. For every unit result received by the status monitor: when the result carries no
  error, the monitor sets \<open>LastCopied\<close> of the header to the source URL of that unit and
  saves the header at once, so that the header on disk is the header in memory; when the
  result carries an error, \<open>LastCopied\<close> is left as it was, in memory and in whatever
  the monitor writes to disk.
\<close>

theorem monitor_checkpoints_success_only:
  "(Error sURLs = None \<longrightarrow>
      (\<exists>s'. snd (monitor f pr s (Status sURLs)) = Continue s' \<and>
            LastCopied (Header s') = URL (SourceContent sURLs) \<and>
            Persisted s' = Some (Header s') \<and>
            Saves s' = Suc (Saves s))) \<and>
   (Error sURLs \<noteq> None \<longrightarrow>
      Header (result_session (snd (monitor f pr s (Status sURLs)))) = Header s \<and>
      (Persisted (result_session (snd (monitor f pr s (Status sURLs)))) = Persisted s \<or>
       Persisted (result_session (snd (monitor f pr s (Status sURLs)))) = Some (Header s)))"
proof (cases "Error sURLs")
  case None
  then show ?thesis by (simp add: Save_def)
next
  case (Some e)
  then show ?thesis
    by (cases "Cause e") (simp_all add: ToGoError_def CloseAndDie_def Let_def)
qed

theorem monitor_checkpoints_success_only_witness:
  "(\<exists>s'. snd (monitor f0 None s0 (Status unit_a)) = Continue s' \<and>
         LastCopied (Header s') = ''src/a'' \<and> Persisted s' = Some (Header s') \<and>
         Saves s' = 1) \<and>
   Header (result_session (snd (monitor f0 None s0
       (Status (unit_a\<lparr>Error := Some (NewError PathNotFound)\<rparr>))))) = Header s0"
  using monitor_checkpoints_success_only [of unit_a f0 None s0]
    monitor_checkpoints_success_only
      [of "unit_a\<lparr>Error := Some (NewError PathNotFound)\<rparr>" f0 None s0]
  by (simp add: unit_a_def s0_def)

text \<open>
  C2. For every error result seen by the status monitor, the loop continues with the
  remaining units exactly when the error is a broken symlink, too many levels of
  symlink, path not found or insufficient permission; every other error ends in
  \<open>CloseAndDie\<close>: the process terminates with a non-zero status, the header is on disk
  and the data file of the session is kept.
\<close>

theorem monitor_error_policy:
  assumes "Error sURLs = Some e"
  shows "((\<exists>s'. snd (monitor f pr s (Status sURLs)) = Continue s') \<longleftrightarrow>
            ToGoError e \<in> {BrokenSymlink, TooManyLevelsSymlink, PathNotFound,
                           PathInsufficientPermission}) \<and>
         (ToGoError e \<notin> {BrokenSymlink, TooManyLevelsSymlink, PathNotFound,
                          PathInsufficientPermission} \<longrightarrow>
            snd (monitor f pr s (Status sURLs)) = Died (CloseAndDie s) \<and>
            (\<exists>n s'. snd (monitor f pr s (Status sURLs)) = Died (Exit n s') \<and> n \<noteq> 0 \<and>
                    Persisted s' = Some (Header s') \<and> Header s' = Header s \<and>
                    DataFile s' = DataFile s \<and> Deleted s' = Deleted s))"
proof (cases "Cause e")
  case (OtherError x)
  have "snd (monitor f pr s (Status sURLs)) = Died (CloseAndDie s)"
    using assms OtherError by (simp add: ToGoError_def Let_def)
  moreover have "\<exists>n s'. snd (monitor f pr s (Status sURLs)) = Died (Exit n s') \<and> n \<noteq> 0 \<and>
                    Persisted s' = Some (Header s') \<and> Header s' = Header s \<and>
                    DataFile s' = DataFile s \<and> Deleted s' = Deleted s"
    using assms OtherError by (simp add: ToGoError_def CloseAndDie_def Let_def)
  moreover have "\<not> (\<exists>s'. snd (monitor f pr s (Status sURLs)) = Continue s')"
    using assms OtherError by (simp add: ToGoError_def Let_def)
  ultimately show ?thesis using OtherError by (simp add: ToGoError_def)
qed (use assms in \<open>simp_all add: ToGoError_def Let_def\<close>)

theorem monitor_error_policy_witness:
  "(\<exists>s'. snd (monitor f0 None s0 (Status (unit_a\<lparr>Error := Some (NewError PathNotFound)\<rparr>)))
           = Continue s') \<and>
   (\<exists>n s'. snd (monitor f0 None s0
                  (Status (unit_a\<lparr>Error := Some (NewError (OtherError ''EIO''))\<rparr>)))
              = Died (Exit n s') \<and> n \<noteq> 0 \<and> DataFile s' = DataFile s0)"
  using monitor_error_policy [of "unit_a\<lparr>Error := Some (NewError PathNotFound)\<rparr>"
                                 "NewError PathNotFound" f0 None s0]
    monitor_error_policy [of "unit_a\<lparr>Error := Some (NewError (OtherError ''EIO''))\<rparr>"
                             "NewError (OtherError ''EIO'')" f0 None s0]
  by (auto simp: ToGoError_def NewError_def s0_def)

section \<open>Properties of doMirror and doMirrorFake\<close>

text \<open>
  C7. For every dispatched transfer task whose \<open>getSource\<close> fails: the task never calls
  \<open>putTargets\<close>, and, the unit having come without an error of its own (else
  \<open>getSource\<close> is not reached), it sends exactly one status, which carries the error of
  \<open>getSource\<close>, of the same Go type, traced with the source URL.
\<close>

theorem doMirror_source_failure:
  assumes "getSource (URL (SourceContent sURLs)) = (r, n, Some e)"
  shows "(\<forall>ev \<in> set (doMirror f getSource putTargets sURLs pr). \<not> is_PutTargets ev) \<and>
         (Error sURLs = None \<longrightarrow>
            sent (doMirror f getSource putTargets sURLs pr) =
              [sURLs\<lparr>Error := Some (Trace e [URL (SourceContent sURLs)])\<rparr>] \<and>
            ToGoError (Trace e [URL (SourceContent sURLs)]) = ToGoError e)"
  using assms
  by (cases "Error sURLs") (simp_all add: doMirror_def ToGoError_def Trace_def Let_def)

theorem doMirror_source_failure_witness:
  "getSource0 (URL (SourceContent unit_c)) = (NilReader, 0, Some (NewError PathNotFound)) \<and>
   sent (doMirror f0 getSource0 putTargets0 unit_c (Some (BarSend 60))) =
     [unit_c\<lparr>Error := Some (Trace (NewError PathNotFound) [''src/c''])\<rparr>] \<and>
   filter is_PutTargets (doMirror f0 getSource0 putTargets0 unit_c (Some (BarSend 60))) = []"
proof -
  have g: "getSource0 (URL (SourceContent unit_c)) = (NilReader, 0, Some (NewError PathNotFound))"
    by (simp add: getSource0_def unit_c_def)
  have e: "Error unit_c = None" "URL (SourceContent unit_c) = ''src/c''"
    by (simp_all add: unit_c_def)
  from doMirror_source_failure
         [of getSource0 unit_c NilReader 0 "NewError PathNotFound" f0 putTargets0
             "Some (BarSend 60)"] g
  have "sent (doMirror f0 getSource0 putTargets0 unit_c (Some (BarSend 60))) =
          [unit_c\<lparr>Error := Some (Trace (NewError PathNotFound) [''src/c''])\<rparr>]"
    and "\<forall>ev \<in> set (doMirror f0 getSource0 putTargets0 unit_c (Some (BarSend 60))).
           \<not> is_PutTargets ev"
    using e by simp_all
  then show ?thesis using g by (simp add: filter_empty_conv)
qed

text \<open>
  With the progress bar as doMirrorSession sets it up, doMirror never invokes a method
  of a nil \<open>progressReader\<close>: it tests the quiet and JSON flags, as the set-up does.
\<close>

lemma doMirror_no_nil_call:
  "\<forall>ev \<in> set (doMirror f getSource putTargets sURLs (newProgressReader f n)).
     \<not> nil_call ev"
  by (cases "getSource (URL (SourceContent sURLs))")
     (simp add: doMirror_def newProgressReader_def Let_def split: option.splits)

text \<open>
  C10. The progress bar is to be used only where it has been set up. doMirrorFake tests
  the debug flag where the set-up tests the quiet flag: in quiet mode, without debug and
  JSON, \<open>progressReader\<close> is nil and doMirrorFake invokes \<open>Progress\<close> on it.
\<close>

theorem doMirrorFake_nil_progressReader_when_quiet:
  "newProgressReader f_quiet 60 = None \<and>
   doMirrorFake f_quiet unit_a (newProgressReader f_quiet 60) = [BarCall None (Progress 10)] \<and>
   nil_call (BarCall None (Progress 10)) \<and>
   step (w0\<lparr>Flags := f_quiet\<rparr>) (newProgressReader f_quiet (TotalBytes (Header s_resume))) 1
     (start (w0\<lparr>Flags := f_quiet\<rparr>) s_resume) ScanNext =
     Goes ((start (w0\<lparr>Flags := f_quiet\<rparr>) s_resume)
             \<lparr>Unread := [''src/b'', ''src/c''], Copied := (''src/a'', False),
              Trail := [IsCopied unit_a True, BarCall None (Progress 10)]\<rparr>)"
  by (simp add: newProgressReader_def doMirrorFake_def f_quiet_def sample_defs)

section \<open>Properties of the scanner and of the task pool\<close>

text \<open>
  C3. In every state the execution reaches: when \<open>isCopied\<close> holds for the source URL
  of the unit read next from the log, the scanner turn only performs doMirrorFake, which
  never calls \<open>putTargets\<close>, and starts no task; when it does not hold (and a slot is
  free) the unit is handed to a doMirror task. Every running task and every call of
  \<open>putTargets\<close> made so far is for a unit on which \<open>isCopied\<close> has returned false.
\<close>

theorem copied_units_are_replayed_only:
  assumes "run w pr cap (start w session) turns = Goes st"
  shows "(\<forall>line rest c.
            Unread st = line # rest \<and>
            IsCopiedFn w (Copied st) (URL (SourceContent (snd (Unmarshal w line)))) = (True, c) \<longrightarrow>
            step w pr cap st ScanNext =
              Goes (st\<lparr>Unread := rest, Copied := c,
                       Trail := Trail st @ IsCopied (snd (Unmarshal w line)) True #
                                doMirrorFake (Flags w) (snd (Unmarshal w line)) pr\<rparr>) \<and>
            (\<forall>ev \<in> set (doMirrorFake (Flags w) (snd (Unmarshal w line)) pr).
               \<not> is_PutTargets ev)) \<and>
         (\<forall>line rest c.
            Unread st = line # rest \<and> mirrorQueue st < cap \<and>
            IsCopiedFn w (Copied st) (URL (SourceContent (snd (Unmarshal w line)))) = (False, c) \<longrightarrow>
            step w pr cap st ScanNext =
              Goes (st\<lparr>Unread := rest, Copied := c, mirrorQueue := Suc (mirrorQueue st),
                       Tasks := Tasks st @ [snd (Unmarshal w line)],
                       Trail := Trail st @
                                [IsCopied (snd (Unmarshal w line)) False, AcquireSlot]\<rparr>)) \<and>
         (\<forall>u \<in> set (Tasks st). IsCopied u False \<in> set (Trail st)) \<and>
         (\<forall>ts n r. PutTargetsCall ts n r \<in> set (Trail st) \<longrightarrow>
            (\<exists>u. IsCopied u False \<in> set (Trail st) \<and> ts = map URL (TargetContents u)))"
proof -
  have "uncopied_only st"
    using run_uncopied_only [OF start_uncopied_only assms] .
  then show ?thesis
    by (auto simp: uncopied_only_def Let_def dest: doMirrorFake_plain)
qed

theorem copied_units_are_replayed_only_witness:
  "step w0 (Some (BarSend 60)) 1 (start w0 s_resume) ScanNext =
     Goes ((start w0 s_resume)\<lparr>Unread := [''src/b'', ''src/c''], Copied := (''src/a'', False),
             Trail := [IsCopied unit_a True, BarCall (Some (BarSend 60)) (Progress 10)]\<rparr>) \<and>
   run w0 (Some (BarSend 60)) 1 (start w0 s_resume) [ScanNext, ScanNext, TaskReturns 0]
     = Goes st_resumed \<and>
   PutTargetsCall [''dst/b''] 20 (ProgressProxy (SourceReader ''src/b'')) \<in> set (Trail st_resumed) \<and>
   (\<exists>u. IsCopied u False \<in> set (Trail st_resumed) \<and> [''dst/b''] = map URL (TargetContents u))"
proof -
  have a: "run w0 (Some (BarSend 60)) 1 (start w0 s_resume) [] = Goes (start w0 s_resume)"
    by simp
  have b: "Unread (start w0 s_resume) = ''src/a'' # [''src/b'', ''src/c''] \<and>
           IsCopiedFn w0 (Copied (start w0 s_resume))
             (URL (SourceContent (snd (Unmarshal w0 ''src/a'')))) = (True, (''src/a'', False))"
    by (simp add: sample_defs)
  have c: "snd (Unmarshal w0 ''src/a'') = unit_a" "Flags w0 = f0"
    by (simp_all add: w0_def unmarshal0_def)
  have d: "doMirrorFake f0 unit_a (Some (BarSend 60)) = [BarCall (Some (BarSend 60)) (Progress 10)]"
    by (simp add: doMirrorFake_def f0_def unit_a_def)
  from copied_units_are_replayed_only [OF a] b
  have "step w0 (Some (BarSend 60)) 1 (start w0 s_resume) ScanNext =
     Goes ((start w0 s_resume)\<lparr>Unread := [''src/b'', ''src/c''], Copied := (''src/a'', False),
             Trail := Trail (start w0 s_resume) @ IsCopied (snd (Unmarshal w0 ''src/a'')) True #
                      doMirrorFake (Flags w0) (snd (Unmarshal w0 ''src/a'')) (Some (BarSend 60))\<rparr>)"
    by blast
  then have first: "step w0 (Some (BarSend 60)) 1 (start w0 s_resume) ScanNext =
     Goes ((start w0 s_resume)\<lparr>Unread := [''src/b'', ''src/c''], Copied := (''src/a'', False),
             Trail := [IsCopied unit_a True, BarCall (Some (BarSend 60)) (Progress 10)]\<rparr>)"
    by (simp only: c d) (simp add: start_def)
  from copied_units_are_replayed_only [OF sample_run_resume]
  have second: "\<forall>ts n r. PutTargetsCall ts n r \<in> set (Trail st_resumed) \<longrightarrow>
      (\<exists>u. IsCopied u False \<in> set (Trail st_resumed) \<and> ts = map URL (TargetContents u))"
    by blast
  have third: "PutTargetsCall [''dst/b''] 20 (ProgressProxy (SourceReader ''src/b''))
                 \<in> set (Trail st_resumed)"
    by (simp add: st_resumed_def)
  show ?thesis
    using first sample_run_resume second third by blast
qed

text \<open>
  C9. The pool that doMirrorSession makes holds \<open>max (NumCPU - 1) 1\<close> values and no
  more. Along the trail of every execution of the session, every value sent into
  \<open>mirrorQueue\<close> finds fewer than that many in it and every receive finds one; and
  with that many pending units at the head of the log, that many tasks are started
  with none returned. In every state the execution reaches, the values held are as many
  as the running tasks; the scanner starts a task for a pending unit only by sending a
  value into the pool, and waits when the pool is full. Every running task, whatever its
  outcome, releases its slot once, after its call of \<open>putTargets\<close> and its status and
  right before \<open>wg.Done\<close> (on the panic of a nil reader: with no such call and no
  status), and its return never blocks.
\<close>

theorem mirrorQueue_bounds_running_tasks:
  fixes w :: "'c world" and session :: sessionV5
  defines "N \<equiv> nat (max (NumCPU w - 1) 1)"
    and "pr \<equiv> newProgressReader (Flags w) (TotalBytes (Header session))"
  shows
    "within N 0 (fst (execute w session turns)) \<and>
     (N \<le> length (DataFile session) \<and>
      True \<notin> set (verdicts (IsCopiedFn w) (IsCopiedFactory w (LastCopied (Header session)))
                      (map (\<lambda>l. snd (Unmarshal w l)) (take N (DataFile session)))) \<longrightarrow>
        held 0 (fst (execute w session (replicate N ScanNext))) = N) \<and>
     (\<forall>st. run w pr N (start w session) turns = Goes st \<longrightarrow>
        mirrorQueue st = length (Tasks st) \<and> length (Tasks st) \<le> N \<and>
        (\<forall>line rest c.
           Unread st = line # rest \<and>
           IsCopiedFn w (Copied st) (URL (SourceContent (snd (Unmarshal w line)))) = (False, c) \<longrightarrow>
           (mirrorQueue st < N \<longrightarrow>
              step w pr N st ScanNext =
                Goes (st\<lparr>Unread := rest, Copied := c, mirrorQueue := Suc (mirrorQueue st),
                         Tasks := Tasks st @ [snd (Unmarshal w line)],
                         Trail := Trail st @
                                  [IsCopied (snd (Unmarshal w line)) False, AcquireSlot]\<rparr>)) \<and>
           (\<not> mirrorQueue st < N \<longrightarrow> step w pr N st ScanNext = Waits)) \<and>
        (\<forall>st'. step w pr N st ScanNext = Goes st' \<and> Tasks st' \<noteq> Tasks st \<longrightarrow>
           mirrorQueue st < N \<and> mirrorQueue st' = Suc (mirrorQueue st) \<and>
           length (Tasks st') = Suc (length (Tasks st))) \<and>
        (\<forall>i < length (Tasks st).
           (\<exists>pre. ReleaseSlot \<notin> set pre \<and>
              (doMirror (Flags w) (GetSource w) (PutTargets w) (Tasks st ! i) pr =
                 pre @ [ReleaseSlot, WgDone] \<and> length (sent pre) = 1 \<or>
               doMirror (Flags w) (GetSource w) (PutTargets w) (Tasks st ! i) pr =
                 pre @ [ReleaseSlot, WgDone, Crash] \<and> sent pre = [] \<and>
                 filter is_PutTargets pre = [])) \<and>
           step w pr N st (TaskReturns i) \<noteq> Waits \<and>
           (\<forall>st'. step w pr N st (TaskReturns i) = Goes st' \<longrightarrow>
              Suc (mirrorQueue st') = mirrorQueue st \<and>
              Suc (length (Tasks st')) = length (Tasks st))))"
proof (intro conjI allI impI)
  have N: "N = mirrorQueueCap (NumCPU w)" by (simp add: N_def mirrorQueueCap_def)
  show "within N 0 (fst (execute w session turns))"
    unfolding N by (rule execute_within)
  show "held 0 (fst (execute w session (replicate N ScanNext))) = N"
    if "N \<le> length (DataFile session) \<and>
        True \<notin> set (verdicts (IsCopiedFn w) (IsCopiedFactory w (LastCopied (Header session)))
                        (map (\<lambda>l. snd (Unmarshal w l)) (take N (DataFile session))))"
    using that unfolding N by (intro execute_fills) simp_all
next
  fix st assume r: "run w pr N (start w session) turns = Goes st"
  have ok: "pool_ok N st" using run_pool_ok [OF start_pool_ok r] .
  show "mirrorQueue st = length (Tasks st)" "length (Tasks st) \<le> N"
    using ok by (simp_all add: pool_ok_def)
  {
    fix line rest c
    assume a: "Unread st = line # rest \<and>
           IsCopiedFn w (Copied st) (URL (SourceContent (snd (Unmarshal w line)))) = (False, c)"
    show "step w pr N st ScanNext =
            Goes (st\<lparr>Unread := rest, Copied := c, mirrorQueue := Suc (mirrorQueue st),
                     Tasks := Tasks st @ [snd (Unmarshal w line)],
                     Trail := Trail st @
                              [IsCopied (snd (Unmarshal w line)) False, AcquireSlot]\<rparr>)"
      if "mirrorQueue st < N" using a that by (simp add: Let_def)
    show "step w pr N st ScanNext = Waits" if "\<not> mirrorQueue st < N"
      using a that by (simp add: Let_def)
  }
  {
    fix st' assume "step w pr N st ScanNext = Goes st' \<and> Tasks st' \<noteq> Tasks st"
    then show "mirrorQueue st < N" "mirrorQueue st' = Suc (mirrorQueue st)"
      "length (Tasks st') = Suc (length (Tasks st))"
      by (auto simp: Let_def split: list.splits prod.splits if_splits)
  }
  fix i assume i: "i < length (Tasks st)"
  let ?evs = "doMirror (Flags w) (GetSource w) (PutTargets w) (Tasks st ! i) pr"
  let ?st = "st\<lparr>Tasks := take i (Tasks st) @ drop (Suc i) (Tasks st)\<rparr>"
  show "\<exists>pre. ReleaseSlot \<notin> set pre \<and>
          (?evs = pre @ [ReleaseSlot, WgDone] \<and> length (sent pre) = 1 \<or>
           ?evs = pre @ [ReleaseSlot, WgDone, Crash] \<and> sent pre = [] \<and>
             filter is_PutTargets pre = [])"
    by (rule doMirror_release_last)
  have q: "count_list ?evs ReleaseSlot \<le> mirrorQueue ?st"
    using ok i by (simp add: doMirror_releases_once pool_ok_def)
  show "step w pr N st (TaskReturns i) \<noteq> Waits"
    using i deliver_never_waits [OF q, of "Flags w" pr] by simp
  fix st' assume "step w pr N st (TaskReturns i) = Goes st'"
  then have d: "deliver (Flags w) pr ?evs ?st = Goes st'" using i by simp
  from deliver_keeps [OF d]
  show "Suc (mirrorQueue st') = mirrorQueue st" "Suc (length (Tasks st')) = length (Tasks st)"
    using i by (simp_all add: doMirror_releases_once)
qed

theorem mirrorQueue_bounds_running_tasks_witness:
  "nat (max (NumCPU w3 - 1) 1) = 2 \<and>
   newProgressReader (Flags w3) (TotalBytes (Header s_fresh)) = Some (BarSend 60) \<and>
   held 0 (fst (execute w3 s_fresh (replicate 2 ScanNext))) = 2 \<and>
   within 2 0 (fst (execute w3 s_fresh [ScanNext, ScanNext, ScanNext, TaskReturns 0, ScanNext])) \<and>
   execute w3 s_fresh [ScanNext, ScanNext, ScanNext] =
     ([IsCopied unit_a False, AcquireSlot, IsCopied unit_b False, AcquireSlot], Unfinished) \<and>
   run w3 (Some (BarSend 60)) 2 (start w3 s_fresh) [ScanNext, ScanNext] = Goes st_two_tasks \<and>
   mirrorQueue st_two_tasks = 2 \<and> Tasks st_two_tasks = [unit_a, unit_b] \<and>
   step w3 (Some (BarSend 60)) 2 st_two_tasks ScanNext = Waits \<and>
   step w3 (Some (BarSend 60)) 2 st_two_tasks (TaskReturns 0) \<noteq> Waits \<and>
   doMirror f0 getSource0 putTargets0 unit_a (Some (BarSend 60)) =
     [BarCall (Some (BarSend 60)) (SetCaption ''src/a: ''), GetSourceCall ''src/a'',
      BarCall (Some (BarSend 60)) NewProxyReader,
      PutTargetsCall [''dst/a''] 10 (ProgressProxy (SourceReader ''src/a'')),
      Send unit_a, CloseReader (ProgressProxy (SourceReader ''src/a'')), ReleaseSlot, WgDone]"
proof -
  have n: "nat (max (NumCPU w3 - 1) 1) = 2" by (simp add: w3_def w0_def)
  have p: "newProgressReader (Flags w3) (TotalBytes (Header s_fresh)) = Some (BarSend 60)"
    by (simp add: newProgressReader_def w3_def w0_def f0_def s_fresh_def header0_def)
  have fill: "2 \<le> length (DataFile s_fresh) \<and>
      True \<notin> set (verdicts (IsCopiedFn w3) (IsCopiedFactory w3 (LastCopied (Header s_fresh)))
                      (map (\<lambda>l. snd (Unmarshal w3 l)) (take 2 (DataFile s_fresh))))"
    by (simp add: sample_defs w3_def s_fresh_def numeral_2_eq_2)
  have t: "mirrorQueue st_two_tasks = 2" "Tasks st_two_tasks = [unit_a, unit_b]"
    "Unread st_two_tasks = ''src/c'' # []"
    "IsCopiedFn w3 (Copied st_two_tasks) (URL (SourceContent (snd (Unmarshal w3 ''src/c''))))
       = (False, ([], True))"
    by (simp_all add: st_two_tasks_def sample_defs w3_def)
  note inst = mirrorQueue_bounds_running_tasks [of w3 s_fresh, unfolded n p]
  have a: "held 0 (fst (execute w3 s_fresh (replicate 2 ScanNext))) = 2"
    by (rule inst [of "[]", THEN conjunct2, THEN conjunct1, THEN mp, OF fill])
  have b: "within 2 0 (fst (execute w3 s_fresh
             [ScanNext, ScanNext, ScanNext, TaskReturns 0, ScanNext]))"
    by (rule inst [THEN conjunct1])
  note at = inst [of "[ScanNext, ScanNext]", THEN conjunct2, THEN conjunct2, THEN spec,
                  THEN mp, OF sample_run_two_tasks]
  note scan = at [THEN conjunct2, THEN conjunct2, THEN conjunct1, THEN spec, THEN spec,
                  THEN spec, THEN mp, OF conjI, OF t(3,4), THEN conjunct2, THEN mp]
  have c: "step w3 (Some (BarSend 60)) 2 st_two_tasks ScanNext = Waits"
    by (rule scan) (simp add: t)
  note task = at [THEN conjunct2, THEN conjunct2, THEN conjunct2, THEN conjunct2,
                  THEN spec, THEN mp, of 0]
  have d: "step w3 (Some (BarSend 60)) 2 st_two_tasks (TaskReturns 0) \<noteq> Waits"
    by (rule task [THEN conjunct2, THEN conjunct1]) (simp add: t)
  have e: "execute w3 s_fresh [ScanNext, ScanNext, ScanNext] =
     ([IsCopied unit_a False, AcquireSlot, IsCopied unit_b False, AcquireSlot], Unfinished)"
    by (simp add: execute_def sample_defs w3_def s_fresh_def mirrorQueueCap_def
          newProgressReader_def Let_def)
  have f: "doMirror f0 getSource0 putTargets0 unit_a (Some (BarSend 60)) =
     [BarCall (Some (BarSend 60)) (SetCaption ''src/a: ''), GetSourceCall ''src/a'',
      BarCall (Some (BarSend 60)) NewProxyReader,
      PutTargetsCall [''dst/a''] 10 (ProgressProxy (SourceReader ''src/a'')),
      Send unit_a, CloseReader (ProgressProxy (SourceReader ''src/a'')), ReleaseSlot, WgDone]"
    by (simp add: doMirror_def sample_defs Let_def)
  show ?thesis
    using n p a b c d e f sample_run_two_tasks t(1,2) by simp
qed

section \<open>Properties of the preparation\<close>

text \<open>
  C6. When the preparation runs to its end over any finite sequence of units from
  \<open>URLsCh\<close> (no interrupt, and \<open>json.Marshal\<close> failing on none of the units written), it
  returns with \<open>TotalBytes\<close> the \<open>int64\<close> sum of the sizes of the units appended to the
  log and \<open>TotalObjects\<close> their number, the counters wrapping as Go's do and equal to
  the exact sum and number where these fit; the header is saved exactly once, with these
  totals; and no turn of the status monitor changes them afterwards.
\<close>

theorem prepare_totals:
  assumes "CommandArgs (Header s) \<noteq> []"
    and "\<forall>u \<in> set (written isEmpty us). \<exists>j. marshal u = Inr j"
  shows "\<exists>s'. snd (doPrepareMirrorURLs f isEmpty marshal (map FromURLsCh us) s) = Returns s' \<and>
           TotalBytes (Header s') = sum_list (map (Size \<circ> SourceContent) (written isEmpty us)) \<and>
           TotalObjects (Header s') = of_nat (length (written isEmpty us)) \<and>
           DataFile s' = DataFile s @ map (projr \<circ> marshal) (written isEmpty us) \<and>
           Saves s' = Suc (Saves s) \<and> Persisted s' = Some (Header s') \<and>
           (- (2 ^ 63) \<le> sum_list (map (sint \<circ> Size \<circ> SourceContent) (written isEmpty us)) \<and>
            sum_list (map (sint \<circ> Size \<circ> SourceContent) (written isEmpty us)) < 2 ^ 63 \<longrightarrow>
              sint (TotalBytes (Header s')) =
                sum_list (map (sint \<circ> Size \<circ> SourceContent) (written isEmpty us))) \<and>
           (length (written isEmpty us) < 2 ^ 63 \<longrightarrow>
              sint (TotalObjects (Header s')) = int (length (written isEmpty us))) \<and>
           (\<forall>pr inp.
              TotalBytes (Header (result_session (snd (monitor f pr s' inp)))) =
                TotalBytes (Header s') \<and>
              TotalObjects (Header (result_session (snd (monitor f pr s' inp)))) =
                TotalObjects (Header s'))"
proof -
  let ?w = "written isEmpty us"
  let ?s = "s\<lparr>DataFile := DataFile s @ map (projr \<circ> marshal) ?w\<rparr>"
  let ?tb = "sum_list (map (Size \<circ> SourceContent) ?w)"
  let ?s' = "Save (?s\<lparr>Header := (Header ?s)\<lparr>TotalBytes := ?tb,
                      TotalObjects := of_nat (length ?w)\<rparr>\<rparr>)"
  obtain evs where loop: "prepareLoop f isEmpty marshal (map FromURLsCh us) s 0 0 =
      (evs, Returns (?s, ?tb, of_nat (length ?w)))"
    using prepareLoop_returns [OF assms(2), of f s 0 0]
    by (cases "prepareLoop f isEmpty marshal (map FromURLsCh us) s 0 0") simp
  have ret: "snd (doPrepareMirrorURLs f isEmpty marshal (map FromURLsCh us) s) = Returns ?s'"
    using assms(1) loop by (simp add: doPrepareMirrorURLs_def split: list.splits)
  have sizes: "map sint (map (Size \<circ> SourceContent) ?w) = map (sint \<circ> Size \<circ> SourceContent) ?w"
    by simp
  have bytes: "- (2 ^ 63) \<le> sum_list (map (sint \<circ> Size \<circ> SourceContent) ?w) \<and>
        sum_list (map (sint \<circ> Size \<circ> SourceContent) ?w) < 2 ^ 63 \<longrightarrow>
        sint ?tb = sum_list (map (sint \<circ> Size \<circ> SourceContent) ?w)"
    using sint_sum_list_exact [of "map (Size \<circ> SourceContent) ?w"] unfolding sizes by blast
  have objs: "length ?w < 2 ^ 63 \<longrightarrow> sint (of_nat (length ?w) :: int64) = int (length ?w)"
    using sint_of_nat_exact by blast
  show ?thesis
    apply (rule exI [of _ ?s'])
    apply (intro conjI)
            apply (rule ret)
           apply (simp add: Save_def)
          apply (simp add: Save_def)
         apply (simp add: Save_def)
        apply (simp add: Save_def)
       apply (simp add: Save_def)
    using bytes apply (simp add: Save_def)
    using objs apply (simp add: Save_def)
    using monitor_keeps apply blast
    done
qed

theorem prepare_totals_witness:
  "\<exists>s'. snd (doPrepareMirrorURLs f0 isEmpty0 marshal0
               (map FromURLsCh [unit_a, unit_b, unit_c]) s0) = Returns s' \<and>
        TotalBytes (Header s') = 60 \<and> sint (TotalBytes (Header s')) = 60 \<and>
        TotalObjects (Header s') = 3 \<and>
        DataFile s' = [''src/a'', ''src/b'', ''src/c''] \<and> Saves s' = 1"
proof -
  have w: "written isEmpty0 [unit_a, unit_b, unit_c] = [unit_a, unit_b, unit_c]"
    by (simp add: written_def isEmpty0_def unit_a_def unit_b_def unit_c_def)
  have a: "CommandArgs (Header s0) \<noteq> []" by (simp add: s0_def header0_def)
  have b: "\<forall>u \<in> set (written isEmpty0 [unit_a, unit_b, unit_c]). \<exists>j. marshal0 u = Inr j"
    by (simp add: marshal0_def)
  have c: "map (projr \<circ> marshal0) [unit_a, unit_b, unit_c] = [''src/a'', ''src/b'', ''src/c'']"
    by (simp add: marshal0_def unit_a_def unit_b_def unit_c_def)
  have d: "sum_list (map (Size \<circ> SourceContent) [unit_a, unit_b, unit_c]) = 60"
    by (simp add: unit_a_def unit_b_def unit_c_def)
  from prepare_totals [OF a b, of f0] obtain s' where
    "snd (doPrepareMirrorURLs f0 isEmpty0 marshal0
            (map FromURLsCh [unit_a, unit_b, unit_c]) s0) = Returns s'"
    "TotalBytes (Header s') = 60" "TotalObjects (Header s') = 3"
    "DataFile s' = [''src/a'', ''src/b'', ''src/c'']" "Saves s' = 1"
    unfolding w c d by (auto simp: s0_def)
  then show ?thesis by simp
qed

text \<open>
  C4, as stated: every run ended by an interrupt exits with a non-zero status. An
  interrupt during the preparation deletes the session and exits with status 0.
\<close>

theorem prepare_interrupt_exits_zero:
  "snd (doPrepareMirrorURLs f0 isEmpty0 marshal0 [FromURLsCh unit_a, FromTrapCh] s0) =
     Exits (Exit 0 (Delete (s0\<lparr>DataFile := [''src/a'']\<rparr>)))"
  by (simp add: doPrepareMirrorURLs_def s0_def header0_def unit_a_def isEmpty0_def
        marshal0_def f0_def)

text \<open>
  C4, amended. An interrupt during the execution ends the run in \<open>CloseAndDie\<close>: the
  status is non-zero, the header is on disk and the log is kept. An interrupt during
  the preparation (reached with \<open>json.Marshal\<close> failing on none of the units written
  before it) deletes the session, header and log, and exits with status 0.
\<close>

theorem interrupt_exit_status:
  "snd (monitor f pr s Trap) = Died (CloseAndDie s) \<and>
   (\<exists>n s'. snd (monitor f pr s Trap) = Died (Exit n s') \<and> n \<noteq> 0 \<and>
           Persisted s' = Some (Header s) \<and> Header s' = Header s \<and>
           DataFile s' = DataFile s \<and> Deleted s' = Deleted s) \<and>
   (CommandArgs (Header s) \<noteq> [] \<and> (\<forall>u \<in> set (written isEmpty us). \<exists>j. marshal u = Inr j) \<longrightarrow>
      (\<exists>s'. snd (doPrepareMirrorURLs f isEmpty marshal (map FromURLsCh us @ FromTrapCh # rest) s)
              = Exits (Exit 0 s') \<and>
            Deleted s' \<and> DataFile s' = [] \<and> Persisted s' = None))"
proof (intro conjI impI)
  show "snd (monitor f pr s Trap) = Died (CloseAndDie s)" by simp
  show "\<exists>n s'. snd (monitor f pr s Trap) = Died (Exit n s') \<and> n \<noteq> 0 \<and>
           Persisted s' = Some (Header s) \<and> Header s' = Header s \<and>
           DataFile s' = DataFile s \<and> Deleted s' = Deleted s"
    by (simp add: CloseAndDie_def)
next
  assume a: "CommandArgs (Header s) \<noteq> [] \<and>
             (\<forall>u \<in> set (written isEmpty us). \<exists>j. marshal u = Inr j)"
  let ?s = "s\<lparr>DataFile := DataFile s @ map (projr \<circ> marshal) (written isEmpty us)\<rparr>"
  have "snd (prepareLoop f isEmpty marshal (map FromURLsCh us @ FromTrapCh # rest) s 0 0) =
          Exits (Exit 0 (Delete ?s))"
    using a by (simp add: prepareLoop_prefix)
  then have "snd (doPrepareMirrorURLs f isEmpty marshal (map FromURLsCh us @ FromTrapCh # rest) s)
               = Exits (Exit 0 (Delete ?s))"
    using a
    by (cases "prepareLoop f isEmpty marshal (map FromURLsCh us @ FromTrapCh # rest) s 0 0")
       (simp add: doPrepareMirrorURLs_def split: list.splits)
  then show "\<exists>s'. snd (doPrepareMirrorURLs f isEmpty marshal
                          (map FromURLsCh us @ FromTrapCh # rest) s) = Exits (Exit 0 s') \<and>
                  Deleted s' \<and> DataFile s' = [] \<and> Persisted s' = None"
    by (simp add: Delete_def)
qed

theorem interrupt_exit_status_witness:
  "(\<exists>n s'. snd (monitor f0 None s_resume Trap) = Died (Exit n s') \<and> n \<noteq> 0 \<and>
           DataFile s' = [''src/a'', ''src/b'', ''src/c'']) \<and>
   (\<exists>s'. snd (doPrepareMirrorURLs f0 isEmpty0 marshal0
                 (map FromURLsCh [unit_a] @ FromTrapCh # [FromURLsCh unit_b]) s0)
           = Exits (Exit 0 s') \<and> Deleted s' \<and> DataFile s' = [])"
proof -
  have a: "CommandArgs (Header s0) \<noteq> [] \<and>
           (\<forall>u \<in> set (written isEmpty0 [unit_a]). \<exists>j. marshal0 u = Inr j)"
    by (simp add: s0_def header0_def marshal0_def)
  have m: "\<exists>n s'. snd (monitor f0 None s_resume Trap) = Died (Exit n s') \<and> n \<noteq> 0 \<and>
                 DataFile s' = DataFile s_resume"
    using interrupt_exit_status [of f0 None s_resume isEmpty0 "[unit_a]" marshal0] by blast
  have p: "\<exists>s'. snd (doPrepareMirrorURLs f0 isEmpty0 marshal0
                 (map FromURLsCh [unit_a] @ FromTrapCh # [FromURLsCh unit_b]) s0)
           = Exits (Exit 0 s') \<and> Deleted s' \<and> DataFile s' = []"
    using interrupt_exit_status [of f0 None s0 isEmpty0 "[unit_a]" marshal0 "[FromURLsCh unit_b]"] a
    by blast
  have d: "DataFile s_resume = [''src/a'', ''src/b'', ''src/c'']" by (simp add: s_resume_def)
  show ?thesis using m p unfolding d by blast
qed

text \<open>
  C8. doMirrorSession prepares exactly when the session has no data. Without data it
  runs doPrepareMirrorURLs and executes what that returns. With data it runs no
  preparation at all: the result does not depend on what the preparation would have
  received, the scanner reads the data file as it is, and in every state the execution
  reaches the data file and the totals of the header are those the session came with.
\<close>

theorem prepare_exactly_without_data:
  "(\<not> HasData s \<longrightarrow>
      prepareUnlessHasData f isEmpty marshal arrivals s =
        doPrepareMirrorURLs f isEmpty marshal arrivals s \<and>
      doMirrorSession w isEmpty marshal arrivals turns s =
        (case doPrepareMirrorURLs (Flags w) isEmpty marshal arrivals s of
           (evs, Returns s1) \<Rightarrow> emit evs (execute w s1 turns)
         | (evs, r) \<Rightarrow> (evs, r))) \<and>
   (HasData s \<longrightarrow>
      prepareUnlessHasData f isEmpty marshal arrivals s = ([], Returns s) \<and>
      doMirrorSession w isEmpty marshal arrivals turns s = execute w s turns \<and>
      Unread (start w s) = DataFile s \<and>
      (\<forall>pr cap st. run w pr cap (start w s) turns = Goes st \<longrightarrow>
         DataFile (Session st) = DataFile s \<and>
         TotalBytes (Header (Session st)) = TotalBytes (Header s) \<and>
         TotalObjects (Header (Session st)) = TotalObjects (Header s)))"
proof (intro conjI impI)
  assume "HasData s"
  then show "doMirrorSession w isEmpty marshal arrivals turns s = execute w s turns"
    by (simp add: doMirrorSession_def prepareUnlessHasData_def emit_Nil)
  show "\<forall>pr cap st. run w pr cap (start w s) turns = Goes st \<longrightarrow>
         DataFile (Session st) = DataFile s \<and>
         TotalBytes (Header (Session st)) = TotalBytes (Header s) \<and>
         TotalObjects (Header (Session st)) = TotalObjects (Header s)"
  proof (intro allI impI)
    fix pr cap st assume r: "run w pr cap (start w s) turns = Goes st"
    have "same_log s (Session (start w s))" by (simp add: same_log_def start_def)
    from run_same_log [OF r this]
    show "DataFile (Session st) = DataFile s \<and>
         TotalBytes (Header (Session st)) = TotalBytes (Header s) \<and>
         TotalObjects (Header (Session st)) = TotalObjects (Header s)"
      by (simp add: same_log_def)
  qed
qed (simp_all add: doMirrorSession_def prepareUnlessHasData_def start_def)

theorem prepare_exactly_without_data_witness:
  "\<not> HasData s0 \<and> HasData s_resume \<and>
   prepareUnlessHasData f0 isEmpty0 marshal0 [FromURLsCh unit_b] s_resume = ([], Returns s_resume) \<and>
   (\<exists>evs s'. prepareUnlessHasData f0 isEmpty0 marshal0 [FromURLsCh unit_b] s0 = (evs, Returns s') \<and>
             DataFile s' = [''src/b''] \<and> TotalBytes (Header s') = 20) \<and>
   (\<exists>st. run w0 (Some (BarSend 60)) 1 (start w0 s_resume) [ScanNext, ScanNext, TaskReturns 0]
           = Goes st \<and> DataFile (Session st) = DataFile s_resume \<and>
         TotalBytes (Header (Session st)) = 60)"
proof -
  have a: "\<not> HasData s0" "HasData s_resume"
    by (simp_all add: HasData_def s0_def s_resume_def)
  have b: "doPrepareMirrorURLs f0 isEmpty0 marshal0 [FromURLsCh unit_b] s0 =
      ([ScanBar ''src/b''],
       Returns (Save (s0\<lparr>DataFile := [''src/b''],
                         Header := header0\<lparr>TotalBytes := 20, TotalObjects := 1\<rparr>\<rparr>)))"
    by (simp add: doPrepareMirrorURLs_def s0_def header0_def unit_b_def isEmpty0_def
          marshal0_def f0_def)
  have c: "TotalBytes (Header s_resume) = 60" by (simp add: s_resume_def)
  show ?thesis
    using a b c sample_run_resume
      prepare_exactly_without_data [of s0 f0 isEmpty0 marshal0 "[FromURLsCh unit_b]" w0 "[]"]
      prepare_exactly_without_data [of s_resume f0 isEmpty0 marshal0 "[FromURLsCh unit_b]" w0
         "[ScanNext, ScanNext, TaskReturns 0]"]
    by (simp add: Save_def)
qed

section \<open>Errors of the log scanner\<close>

text \<open>
  C5. Every error is to be traced and surfaced, but for the enumeration errors of the
  preparation, which are logged and skipped. The scanner of the execution drops the
  error of \<open>json.Unmarshal\<close>: on a line of the data file that does not decode, nothing
  is reported and nothing is sent to the monitor; the scanner goes on with the unit as
  \<open>json.Unmarshal\<close> left it and starts a task for it.
\<close>

theorem unmarshal_error_is_dropped:
  "fst (Unmarshal w0 ''{'') = Some (OtherError ''invalid character'') \<and>
   HasData s_broken \<and>
   step w0 (newProgressReader f0 10) (mirrorQueueCap 2) (start w0 s_broken) ScanNext =
     Goes ((start w0 s_broken)\<lparr>Unread := [], Copied := ([], True), mirrorQueue := 1,
             Tasks := [zero_unit], Trail := [IsCopied zero_unit False, AcquireSlot]\<rparr>)"
  by (simp add: sample_defs HasData_def mirrorQueueCap_def newProgressReader_def Let_def)

end
